(* ===== verification/Prelude.thy ===== *)
theory Prelude
  imports Complex_Main "HOL-Library.Sublist"
begin

text \<open>
  Shared vocabulary of the LinkUp model (\<open>src/script.js\<close>): the JavaScript string
  operations the application calls (\<open>toLowerCase\<close>, \<open>trim\<close>, \<open>includes\<close>, the
  integer case of \<open>Number.prototype.toString\<close>), the list search and in-place update
  that \<open>this.posts.find\<close> and the mutation of the found object amount to, and the
  rule collections the component theories add to.
  A JavaScript string is modelled as \<open>string\<close> holding its UTF-8 encoding, one
  \<open>char\<close> per byte: ASCII text is one \<open>char\<close> per character, and the emoji of the
  source are their UTF-8 byte sequences. \<open>js_length\<close> counts UTF-16 code units, as
  \<open>.length\<close> does. \<open>toLowerCase\<close> and \<open>trim\<close> are modelled on ASCII letters and
  ASCII white space; \<open>includes\<close> is exact (UTF-8 substring search agrees with code
  point substring search).
\<close>

named_theorems js_string "characterisations of the JavaScript string helpers"
named_theorems js_eval "rules that let simp evaluate the model on literal inputs"

type_synonym millis = int \<comment> \<open>a \<open>Date\<close> read as milliseconds since the epoch\<close>

section \<open>String.prototype.length\<close>

text \<open>
  A UTF-8 continuation byte adds no code unit, a four-byte sequence (a code point beyond
  the basic plane, such as an emoji) adds a surrogate pair, any other lead byte one unit.
\<close>

definition utf16_units :: "char \<Rightarrow> nat" where
  "utf16_units c =
     (let b = of_char c :: nat in if 128 \<le> b \<and> b < 192 then 0 else if 240 \<le> b then 2 else 1)"

definition js_length :: "string \<Rightarrow> nat" where
  "js_length s = sum_list (map utf16_units s)"

section \<open>String.prototype.toLowerCase, restricted to ASCII\<close>

definition js_lower_char :: "char \<Rightarrow> char" where
  "js_lower_char c =
     (if (65::nat) \<le> of_char c \<and> of_char c \<le> (90::nat) then char_of (of_char c + (32::nat)) else c)"

abbreviation js_lower :: "string \<Rightarrow> string" where
  "js_lower s \<equiv> map js_lower_char s"

section \<open>String.prototype.trim\<close>

text \<open>
  \<open>trim\<close> removes the ECMAScript white space and line terminators at both ends: the
  one-byte ones (tab, line feed, vertical tab, form feed, carriage return, space,
  \<open>js_is_space\<close>) and the code points U+00A0, U+1680, U+2000 to U+200A, U+2028, U+2029,
  U+202F, U+205F, U+3000 and U+FEFF, each as its UTF-8 byte sequence
  (\<open>js_space_seqs\<close>). \<open>strip_seqs ws s\<close> drops leading occurrences of the sequences
  \<open>ws\<close>; the end of the string is stripped on its reversal with the reversed sequences,
  which is sound for UTF-8 because no lead byte is a continuation byte.
\<close>

definition js_is_space :: "char \<Rightarrow> bool" where
  "js_is_space c \<longleftrightarrow> of_char c \<in> {9, 10, 11, 12, 13, 32::nat}"

definition js_space_seqs :: "string list" where
  "js_space_seqs =
     [[CHR 0x09], [CHR 0x0A], [CHR 0x0B], [CHR 0x0C], [CHR 0x0D], [CHR 0x20],
      [CHR 0xC2, CHR 0xA0], [CHR 0xE1, CHR 0x9A, CHR 0x80],
      [CHR 0xE2, CHR 0x80, CHR 0x80], [CHR 0xE2, CHR 0x80, CHR 0x81], [CHR 0xE2, CHR 0x80, CHR 0x82],
      [CHR 0xE2, CHR 0x80, CHR 0x83], [CHR 0xE2, CHR 0x80, CHR 0x84], [CHR 0xE2, CHR 0x80, CHR 0x85],
      [CHR 0xE2, CHR 0x80, CHR 0x86], [CHR 0xE2, CHR 0x80, CHR 0x87], [CHR 0xE2, CHR 0x80, CHR 0x88],
      [CHR 0xE2, CHR 0x80, CHR 0x89], [CHR 0xE2, CHR 0x80, CHR 0x8A],
      [CHR 0xE2, CHR 0x80, CHR 0xA8], [CHR 0xE2, CHR 0x80, CHR 0xA9], [CHR 0xE2, CHR 0x80, CHR 0xAF],
      [CHR 0xE2, CHR 0x81, CHR 0x9F], [CHR 0xE3, CHR 0x80, CHR 0x80], [CHR 0xEF, CHR 0xBB, CHR 0xBF]]"

function strip_seqs :: "string list \<Rightarrow> string \<Rightarrow> string" where
  "strip_seqs ws s =
     (case find (\<lambda>w. w \<noteq> [] \<and> prefix w s) ws of
        None \<Rightarrow> s
      | Some w \<Rightarrow> strip_seqs ws (drop (length w) s))"
  by pat_completeness auto
termination
proof (relation "measure (\<lambda>(ws, s). length s)")
  fix ws and s :: string and w
  assume "find (\<lambda>w. w \<noteq> [] \<and> prefix w s) ws = Some w"
  then have "w \<noteq> []" "prefix w s" by (auto simp: find_Some_iff)
  moreover from \<open>prefix w s\<close> have "length w \<le> length s" by (rule prefix_length_le)
  ultimately have "0 < length w" "0 < length s" by (cases s, simp_all)+
  then show "((ws, drop (length w) s), ws, s) \<in> measure (\<lambda>(ws, s). length s)" by simp
qed simp

declare strip_seqs.simps [simp del]

definition js_trim :: "string \<Rightarrow> string" where
  "js_trim s = rev (strip_seqs (map rev js_space_seqs) (rev (strip_seqs js_space_seqs s)))"

section \<open>String.prototype.includes\<close>

text \<open>
  \<open>s.includes(q)\<close> tries every start position of \<open>s\<close> from the left; the empty
  query is found at position 0.
\<close>

fun js_includes :: "string \<Rightarrow> string \<Rightarrow> bool" where
  "js_includes [] q = (q = [])"
| "js_includes (c # s) q = (prefix q (c # s) \<or> js_includes s q)"

section \<open>Integer to decimal string\<close>

text \<open>
  \<open>Number.prototype.toString\<close> and template interpolation \<open>${n}\<close> print an integer
  in the safe range as its decimal digits, with a minus sign when negative.
\<close>

definition digit_char :: "nat \<Rightarrow> char" where
  "digit_char d = char_of (48 + d)"

fun show_nat :: "nat \<Rightarrow> string" where
  "show_nat n = (if n < 10 then [digit_char n] else show_nat (n div 10) @ [digit_char (n mod 10)])"

definition show_int :: "int \<Rightarrow> string" where
  "show_int i = (if i < 0 then CHR ''-'' # show_nat (nat (- i)) else show_nat (nat i))"

definition is_digit :: "char \<Rightarrow> bool" where
  "is_digit c \<longleftrightarrow> (48::nat) \<le> of_char c \<and> of_char c \<le> (57::nat)"

section \<open>Array.prototype.find and mutation of the found object\<close>

text \<open>
  \<open>xs.find(p)\<close> is \<open>List.find\<close>. Mutating the object it returns changes the first
  element that satisfies \<open>p\<close> and nothing else: \<open>update_first\<close>.
\<close>

fun update_first :: "('a \<Rightarrow> bool) \<Rightarrow> ('a \<Rightarrow> 'a) \<Rightarrow> 'a list \<Rightarrow> 'a list" where
  "update_first P f [] = []"
| "update_first P f (x # xs) = (if P x then f x # xs else x # update_first P f xs)"

text \<open>Removing the element at an index (a fired timer leaves the browser's queue).\<close>

definition remove_at :: "nat \<Rightarrow> 'a list \<Rightarrow> 'a list" where
  "remove_at k xs = take k xs @ drop (Suc k) xs"

section \<open>Lemmas on the helpers\<close>

declare show_nat.simps [simp del]

lemma char_of_numeral_eval [js_eval]:
  "char_of (numeral n :: nat) = Char (bit (numeral n :: nat) 0) (bit (numeral n :: nat) 1)
     (bit (numeral n :: nat) 2) (bit (numeral n :: nat) 3) (bit (numeral n :: nat) 4)
     (bit (numeral n :: nat) 5) (bit (numeral n :: nat) 6) (bit (numeral n :: nat) 7)"
  by (simp add: char_of_def)

lemmas [js_eval] = bit_0

lemmas [js_eval] = strip_seqs.simps js_space_seqs_def show_nat.simps digit_char_def show_int_def js_length_def utf16_units_def

lemma js_length_ascii: "\<forall>c \<in> set s. of_char c < (128::nat) \<Longrightarrow> js_length s = length s"
  by (induction s) (simp_all add: js_length_def utf16_units_def)

lemma int_div_less_iff:
  assumes "0 < k"
  shows "(a::int) div k < n \<longleftrightarrow> a < n * k"
proof
  assume "a div k < n"
  then have "(a div k + 1) * k \<le> n * k" using assms by (simp add: mult_right_mono)
  moreover have "a < (a div k + 1) * k"
  proof -
    have "a = a div k * k + a mod k" by simp
    moreover have "(a div k + 1) * k = a div k * k + k" by (simp add: distrib_right)
    ultimately show ?thesis using pos_mod_bound [OF assms, of a] by linarith
  qed
  ultimately show "a < n * k" by simp
next
  assume lt: "a < n * k"
  show "a div k < n"
  proof (rule ccontr)
    assume "\<not> a div k < n"
    then have "n * k \<le> a div k * k" using assms by (simp add: mult_right_mono)
    also have "\<dots> \<le> a"
    proof -
      have "a = a div k * k + a mod k" by simp
      then show ?thesis using pos_mod_sign [OF assms, of a] by linarith
    qed
    finally show False using lt by simp
  qed
qed

lemma takeWhile_stop: "v = [] \<or> \<not> P (hd v) \<Longrightarrow> takeWhile P v = []"
  by (cases v) auto

lemma dropWhile_stop: "v = [] \<or> \<not> P (hd v) \<Longrightarrow> dropWhile P v = v"
  by (cases v) auto

lemma takeWhile_append_stop: "v = [] \<or> \<not> P (hd v) \<Longrightarrow> takeWhile P (u @ v) = takeWhile P u"
  by (induction u) (simp_all add: takeWhile_stop)

lemma dropWhile_append_stop: "v = [] \<or> \<not> P (hd v) \<Longrightarrow> dropWhile P (u @ v) = dropWhile P u @ v"
  by (induction u) (simp_all add: dropWhile_stop)

lemma js_includes_sublist [js_string]: "js_includes s q \<longleftrightarrow> sublist q s"
  by (induction s) (auto simp: sublist_Cons_right)

lemma js_includes_Nil [simp]: "js_includes s []"
  by (simp add: js_includes_sublist)

lemma find_SomeD: "find P xs = Some x \<Longrightarrow> P x \<and> x \<in> set xs"
  by (induction xs) (auto split: if_splits)

lemma strip_seqs_stop: "find (\<lambda>w. w \<noteq> [] \<and> prefix w s) ws = None \<Longrightarrow> strip_seqs ws s = s"
  by (simp add: strip_seqs.simps [of ws s])

lemma strip_seqs_Nil [simp]: "strip_seqs ws [] = []"
  by (rule strip_seqs_stop) (simp add: find_None_iff)

lemma strip_seqs_suffix: "suffix (strip_seqs ws s) s"
proof (induction ws s rule: strip_seqs.induct)
  case (1 ws s)
  show ?case
  proof (cases "find (\<lambda>w. w \<noteq> [] \<and> prefix w s) ws")
    case (Some w)
    then have "suffix (strip_seqs ws (drop (length w) s)) (drop (length w) s)" by (rule "1.IH")
    then show ?thesis using Some by (simp add: strip_seqs.simps [of ws s] suffix_drop suffix_order.trans)
  qed (simp add: strip_seqs_stop)
qed

lemma strip_seqs_no_prefix: "find (\<lambda>w. w \<noteq> [] \<and> prefix w (strip_seqs ws s)) ws = None"
proof (induction ws s rule: strip_seqs.induct)
  case (1 ws s)
  then show ?case
    by (cases "find (\<lambda>w. w \<noteq> [] \<and> prefix w s) ws") (simp_all add: strip_seqs.simps [of ws s])
qed

text \<open>When no sequence is a proper prefix of another, leading sequences are all dropped.\<close>

lemma strip_seqs_concat:
  assumes pf: "\<forall>w \<in> set ws. \<forall>w' \<in> set ws. prefix w w' \<longrightarrow> w = w'"
    and us: "\<forall>u \<in> set us. u \<in> set ws \<and> u \<noteq> []"
  shows "strip_seqs ws (concat us @ t) = strip_seqs ws t"
  using us
proof (induction us)
  case (Cons u us)
  let ?s = "u @ concat us @ t"
  have u: "u \<in> set ws" "u \<noteq> []" using Cons.prems by simp_all
  then obtain w where w: "find (\<lambda>w. w \<noteq> [] \<and> prefix w ?s) ws = Some w"
    by (cases "find (\<lambda>w. w \<noteq> [] \<and> prefix w ?s) ws") (auto simp: find_None_iff)
  then have "w \<in> set ws" "prefix w ?s" by (auto dest!: find_SomeD)
  with u pf have "w = u" by (metis prefix_same_cases prefixI)
  with w have "strip_seqs ws ?s = strip_seqs ws (concat us @ t)" by (simp add: strip_seqs.simps [of ws ?s])
  then show ?case using Cons by simp
qed simp

lemma js_space_seqs_prefix_free: "\<forall>w \<in> set js_space_seqs. \<forall>w' \<in> set js_space_seqs. prefix w w' \<longrightarrow> w = w'"
  by (simp add: js_space_seqs_def)

lemma js_space_seqs_not_Nil: "\<forall>w \<in> set js_space_seqs. w \<noteq> []"
  by (simp add: js_space_seqs_def)

lemma js_trim_spaces [js_string]: "\<forall>u \<in> set us. u \<in> set js_space_seqs \<Longrightarrow> js_trim (concat us) = []"
  using strip_seqs_concat [OF js_space_seqs_prefix_free, of us "[]"] js_space_seqs_not_Nil
  by (simp add: js_trim_def)

lemma js_is_space_seq: "js_is_space c \<Longrightarrow> [c] \<in> set js_space_seqs"
proof -
  assume "js_is_space c"
  then have "of_char c \<in> {9, 10, 11, 12, 13, 32::nat}" by (simp add: js_is_space_def)
  then have "of_char c = (of_char (CHR 0x09) :: nat) \<or> of_char c = (of_char (CHR 0x0A) :: nat) \<or>
             of_char c = (of_char (CHR 0x0B) :: nat) \<or> of_char c = (of_char (CHR 0x0C) :: nat) \<or>
             of_char c = (of_char (CHR 0x0D) :: nat) \<or> of_char c = (of_char (CHR 0x20) :: nat)" by simp
  then have "c = CHR 0x09 \<or> c = CHR 0x0A \<or> c = CHR 0x0B \<or> c = CHR 0x0C \<or> c = CHR 0x0D \<or> c = CHR 0x20"
    by (simp only: of_char_eq_iff)
  then show ?thesis by (auto simp: js_space_seqs_def)
qed

lemma js_trim_ascii_spaces [js_string]: "\<forall>c \<in> set s. js_is_space c \<Longrightarrow> js_trim s = []"
  using js_trim_spaces [of "map (\<lambda>c. [c]) s"] js_is_space_seq by simp

lemma js_trim_Nil [simp]: "js_trim [] = []"
  by (simp add: js_trim_def)

lemma js_trim_nonempty: "js_trim s \<noteq> [] \<Longrightarrow> s \<noteq> []"
  by (auto simp: js_trim_def)

lemma digit_char_is_digit [simp]: "d < 10 \<Longrightarrow> is_digit (digit_char d)"
  by (simp add: is_digit_def digit_char_def)

lemma of_char_digit_char [simp]: "d < 10 \<Longrightarrow> of_char (digit_char d) = 48 + d"
  by (simp add: digit_char_def)

lemma show_nat_not_Nil [simp]: "show_nat n \<noteq> []"
  by (subst show_nat.simps) simp

lemma show_nat_digits [js_string]: "\<forall>c \<in> set (show_nat n). is_digit c"
proof (induction n rule: show_nat.induct)
  case (1 n)
  then show ?case by (subst show_nat.simps) auto
qed

lemma find_update_first [simp]:
  "find P xs = Some x \<Longrightarrow> P (f x) \<Longrightarrow> find P (update_first P f xs) = Some (f x)"
  by (induction xs) (auto split: if_splits)

lemma update_first_find_None [simp]: "find P xs = None \<Longrightarrow> update_first P f xs = xs"
  by (induction xs) (auto split: if_splits)

lemma length_update_first [simp]: "length (update_first P f xs) = length xs"
  by (induction xs) auto

lemma map_update_first_frame:
  "(\<And>x. P x \<Longrightarrow> g (f x) = g x) \<Longrightarrow> map g (update_first P f xs) = map g xs"
  by (induction xs) auto

lemma update_first_in_set:
  "y \<in> set (update_first P f xs) \<Longrightarrow> y \<in> set xs \<or> (\<exists>x \<in> set xs. P x \<and> y = f x)"
  by (induction xs) (auto split: if_splits)

lemma update_first_compose:
  "(\<And>x. P (f x) = P x) \<Longrightarrow> update_first P g (update_first P f xs) = update_first P (g \<circ> f) xs"
  by (induction xs) auto

lemma update_first_id: "(\<And>x. P x \<Longrightarrow> f x = x) \<Longrightarrow> update_first P f xs = xs"
  by (induction xs) auto

lemma remove_at_0 [simp]: "remove_at 0 xs = tl xs"
  by (simp add: remove_at_def drop_Suc)

lemma map_remove_at: "map f (remove_at k xs) = remove_at k (map f xs)"
  by (simp add: remove_at_def take_map drop_map)

lemma set_remove_at_subset: "set (remove_at k xs) \<subseteq> set xs"
  by (auto simp: remove_at_def dest: in_set_takeD in_set_dropD)

lemma distinct_remove_at: "distinct xs \<Longrightarrow> distinct (remove_at k xs)"
  by (auto simp: remove_at_def set_take_disj_set_drop_if_distinct)

lemma set_remove_at_distinct:
  assumes "distinct xs" "k < length xs"
  shows "set (remove_at k xs) = set xs - {xs ! k}"
proof -
  have xs: "xs = take k xs @ xs ! k # drop (Suc k) xs" using assms(2) by (rule id_take_nth_drop)
  have "distinct (take k xs @ xs ! k # drop (Suc k) xs)" using assms(1) xs by simp
  then show ?thesis by (subst (2) xs) (auto simp: remove_at_def)
qed

lemma js_trim_idem [js_string]: "js_trim (js_trim s) = js_trim s"
proof -
  define rs where "rs = map rev js_space_seqs"
  define u where "u = strip_seqs js_space_seqs s"
  define v where "v = strip_seqs rs (rev u)"
  have t: "js_trim s = rev v" by (simp add: js_trim_def u_def v_def rs_def)
  have "suffix v (rev u)" unfolding v_def by (rule strip_seqs_suffix)
  then have pre: "prefix (rev v) u" by (simp add: suffix_to_prefix)
  have "find (\<lambda>w. w \<noteq> [] \<and> prefix w u) js_space_seqs = None"
    unfolding u_def by (rule strip_seqs_no_prefix)
  then have "find (\<lambda>w. w \<noteq> [] \<and> prefix w (rev v)) js_space_seqs = None"
    using pre by (auto simp: find_None_iff dest: prefix_order.trans)
  then have a: "strip_seqs js_space_seqs (rev v) = rev v" by (rule strip_seqs_stop)
  have "find (\<lambda>w. w \<noteq> [] \<and> prefix w v) rs = None" unfolding v_def by (rule strip_seqs_no_prefix)
  then have b: "strip_seqs rs v = v" by (rule strip_seqs_stop)
  show ?thesis unfolding t by (simp add: js_trim_def a b flip: rs_def)
qed

lemma update_first_distinct:
  "distinct (map g xs) \<Longrightarrow> update_first (\<lambda>x. g x = k) f xs = map (\<lambda>x. if g x = k then f x else x) xs"
  by (induction xs) (auto simp: image_iff intro!: map_idI[symmetric])

end
