(* ===== verification/Posts.thy ===== *)
theory Posts
  imports Prelude
begin

text \<open>
  The data of \<open>LinkUpApp\<close> (\<open>src/script.js\<close>): the current user (the object built in
  the constructor), the post objects of \<open>loadSampleData\<close> and \<open>createPost\<close>, and the
  operations on one post and on the post list that \<open>createPost\<close>,
  \<open>handlePostAction\<close> and \<open>handleSearch\<close> perform. The handlers themselves, with
  their rendering and notifications, are in \<open>App\<close>.
\<close>

section \<open>Users and posts\<close>

text \<open>
  The author object of a post has \<open>name\<close>, \<open>username\<close> and \<open>avatar\<close>; the current
  user has in addition \<open>id\<close> and the three counters (the field \<open>posts\<close> of the source
  is \<open>post_count\<close> here, to keep it apart from the post list).
\<close>

record author =
  name :: string
  username :: string
  avatar :: string

record profile = author +
  profile_id :: int
  following :: int
  followers :: int
  post_count :: int

record post =
  post_id :: int
  user :: author
  content :: string
  image :: "string option"
  timestamp :: millis
  likes :: int
  retweets :: int
  comments :: int
  liked :: bool
  retweeted :: bool

definition initial_user :: profile where
  "initial_user =
     \<lparr>name = ''Arjun Sharma'', username = ''@arjunsharma'',
      avatar = ''https://source.unsplash.com/300x300/?india,cricketer,portrait&sig=241'',
      profile_id = 1, following = 1200, followers = 5800, post_count = 234\<rparr>"

section \<open>Sample data\<close>

definition emoji_rocket :: string where
  "emoji_rocket = [CHR 0xF0, CHR 0x9F, CHR 0x9A, CHR 0x80]"

definition emoji_sunrise :: string where
  "emoji_sunrise = [CHR 0xF0, CHR 0x9F, CHR 0x8C, CHR 0x85]"

definition emoji_coffee :: string where
  "emoji_coffee = [CHR 0xE2, CHR 0x98, CHR 0x95, CHR 0xEF, CHR 0xB8, CHR 0x8F]"

definition emoji_party :: string where
  "emoji_party = [CHR 0xF0, CHR 0x9F, CHR 0x8E, CHR 0x89]"

definition emoji_beach :: string where
  "emoji_beach = [CHR 0xF0, CHR 0x9F, CHR 0x8F, CHR 0x96, CHR 0xEF, CHR 0xB8, CHR 0x8F]"

definition sample_post ::
  "int \<Rightarrow> author \<Rightarrow> string \<Rightarrow> string option \<Rightarrow> millis \<Rightarrow> int \<Rightarrow> int \<Rightarrow> int \<Rightarrow> bool \<Rightarrow> bool \<Rightarrow> post" where
  "sample_post i u c img ts l r cm lk rt =
     \<lparr>post_id = i, user = u, content = c, image = img, timestamp = ts,
      likes = l, retweets = r, comments = cm, liked = lk, retweeted = rt\<rparr>"

text \<open>\<open>loadSampleData\<close>; \<open>now\<close> is \<open>Date.now()\<close> when it runs.\<close>

definition sample_posts :: "millis \<Rightarrow> post list" where
  "sample_posts now =
    [sample_post 1
       \<lparr>name = ''Priya Patel'', username = ''@priyapatel'',
        avatar = ''https://source.unsplash.com/300x300/?indian,cricketer,portrait&sig=242''\<rparr>
       (''Just finished building an amazing React component! The new hooks API is incredible. ''
        @ emoji_rocket @ '' #ReactJS #WebDev #TechIndia'')
       (Some ''https://images.unsplash.com/photo-1633356122544-f134324a6cee?w=600&h=300&fit=crop'')
       (now - 2 * 60 * 60 * 1000) 42 8 12 False False,
     sample_post 2
       \<lparr>name = ''Rajesh Kumar'', username = ''@rajeshkumar'',
        avatar = ''https://source.unsplash.com/300x300/?india,cricket,player&sig=243''\<rparr>
       (''Beautiful sunset from my office window in Bangalore today. Sometimes you need to step back and appreciate the simple things. ''
        @ emoji_sunrise @ '' #Bangalore #Sunset'')
       (Some ''https://images.unsplash.com/photo-1506905925346-21bda4d32df4?w=600&h=400&fit=crop'')
       (now - 4 * 60 * 60 * 1000) 28 5 7 True False,
     sample_post 3
       \<lparr>name = ''Kavya Singh'', username = ''@kavyasingh'',
        avatar = ''https://source.unsplash.com/300x300/?india,cricket,portrait&sig=244''\<rparr>
       (''Chai and code - the perfect combination for a productive morning! ''
        @ emoji_coffee @ '' What'' @ [CHR 0x27] @ ''s your favorite coding beverage? #Chai #Coding #India'')
       None
       (now - 6 * 60 * 60 * 1000) 35 12 18 False True,
     sample_post 4
       \<lparr>name = ''Vikram Singh'', username = ''@vikramsingh'',
        avatar = ''https://source.unsplash.com/300x300/?cricket,india,batsman&sig=245''\<rparr>
       (''Just launched my fintech startup! '' @ emoji_party
        @ '' After months of hard work, we'' @ [CHR 0x27] @ ''re finally live. Thank you to everyone who supported us along the way! #StartupIndia #Fintech'')
       (Some ''https://images.unsplash.com/photo-1551434678-e076c223a692?w=600&h=300&fit=crop'')
       (now - 8 * 60 * 60 * 1000) 89 23 31 False False,
     sample_post 5
       \<lparr>name = ''Deepika Sharma'', username = ''@deepikasharma'',
        avatar = ''https://source.unsplash.com/300x300/?indian,cricket,team&sig=246''\<rparr>
       (''Weekend vibes in Goa! '' @ emoji_beach
        @ '' Sometimes you need to disconnect to reconnect. How do you like to spend your weekends? #Goa #Weekend #Relax'')
       (Some ''https://images.unsplash.com/photo-1507525428034-b723cf961d3e?w=600&h=400&fit=crop'')
       (now - 12 * 60 * 60 * 1000) 67 15 24 True False]"

section \<open>Operations on one post\<close>

text \<open>
  The object literal of \<open>createPost\<close>: the id is \<open>Date.now()\<close>, the author the current
  user (only its author fields are ever read), no image, the counters zero.
\<close>

definition new_post :: "millis \<Rightarrow> profile \<Rightarrow> string \<Rightarrow> post" where
  "new_post now cu text =
     \<lparr>post_id = now,
      user = \<lparr>name = name cu, username = username cu, avatar = avatar cu\<rparr>,
      content = text, image = None, timestamp = now,
      likes = 0, retweets = 0, comments = 0, liked = False, retweeted = False\<rparr>"

text \<open>\<open>post.liked = !post.liked; post.likes += post.liked ? 1 : -1\<close>, and the same for retweets.\<close>

definition toggle_like :: "post \<Rightarrow> post" where
  "toggle_like p = (let l = \<not> liked p in p\<lparr>liked := l, likes := likes p + (if l then 1 else -1)\<rparr>)"

definition toggle_retweet :: "post \<Rightarrow> post" where
  "toggle_retweet p =
     (let r = \<not> retweeted p in p\<lparr>retweeted := r, retweets := retweets p + (if r then 1 else -1)\<rparr>)"

definition add_comment :: "post \<Rightarrow> post" where
  "add_comment p = p\<lparr>comments := comments p + 1\<rparr>"

text \<open>The \<open>action\<close> string of \<open>handlePostAction\<close>; any other string matches no case.\<close>

datatype action = Like | Retweet | Comment | Share | Other_action string

fun apply_action :: "action \<Rightarrow> post \<Rightarrow> post" where
  "apply_action Like p = toggle_like p"
| "apply_action Retweet p = toggle_retweet p"
| "apply_action Comment p = add_comment p"
| "apply_action Share p = p"
| "apply_action (Other_action a) p = p"

section \<open>Operations on the post list\<close>

text \<open>\<open>this.posts.find(p => p.id === postId)\<close> and the mutation of the post it finds.\<close>

definition find_post :: "int \<Rightarrow> post list \<Rightarrow> post option" where
  "find_post pid ps = find (\<lambda>p. post_id p = pid) ps"

definition update_post :: "int \<Rightarrow> (post \<Rightarrow> post) \<Rightarrow> post list \<Rightarrow> post list" where
  "update_post pid f ps = update_first (\<lambda>p. post_id p = pid) f ps"

text \<open>The filter of \<open>handleSearch\<close>: content or author name contains the query, both lowered.\<close>

definition matches_query :: "string \<Rightarrow> post \<Rightarrow> bool" where
  "matches_query query p \<longleftrightarrow>
     js_includes (js_lower (content p)) (js_lower query) \<or>
     js_includes (js_lower (name (user p))) (js_lower query)"

definition search_posts :: "string \<Rightarrow> post list \<Rightarrow> post list" where
  "search_posts query ps = filter (matches_query query) ps"

text \<open>
  The engagement invariant of the data model: counters are never negative, and a post
  the viewer likes (retweets) has at least that one like (retweet).
\<close>

definition engagement_ok :: "post \<Rightarrow> bool" where
  "engagement_ok p \<longleftrightarrow>
     0 \<le> likes p \<and> (liked p \<longrightarrow> 1 \<le> likes p) \<and>
     0 \<le> retweets p \<and> (retweeted p \<longrightarrow> 1 \<le> retweets p) \<and> 0 \<le> comments p"


section \<open>Lemmas\<close>

lemma toggle_like_involutive: "toggle_like (toggle_like p) = p"
  by (simp add: toggle_like_def Let_def)

lemma toggle_retweet_involutive: "toggle_retweet (toggle_retweet p) = p"
  by (simp add: toggle_retweet_def Let_def)

lemma post_id_apply_action [simp]: "post_id (apply_action a p) = post_id p"
  by (cases a) (simp_all add: toggle_like_def toggle_retweet_def add_comment_def Let_def)

lemma post_id_add_comment [simp]: "post_id (add_comment p) = post_id p"
  by (simp add: add_comment_def)

lemma engagement_ok_apply_action: "engagement_ok p \<Longrightarrow> engagement_ok (apply_action a p)"
  by (cases a) (auto simp: engagement_ok_def toggle_like_def toggle_retweet_def add_comment_def Let_def)

lemma engagement_ok_add_comment: "engagement_ok p \<Longrightarrow> engagement_ok (add_comment p)"
  by (simp add: engagement_ok_def add_comment_def)

lemma engagement_ok_new_post: "engagement_ok (new_post now cu text)"
  by (simp add: engagement_ok_def new_post_def)

lemma engagement_ok_sample_posts: "\<forall>p \<in> set (sample_posts now). engagement_ok p"
  by (simp add: sample_posts_def sample_post_def engagement_ok_def)

lemma sample_post_ids: "map post_id (sample_posts now) = [1, 2, 3, 4, 5]"
  by (simp add: sample_posts_def sample_post_def)

lemma update_post_ids: "(\<And>p. post_id (f p) = post_id p) \<Longrightarrow> map post_id (update_post pid f ps) = map post_id ps"
  unfolding update_post_def by (rule map_update_first_frame) simp

lemma update_post_keeps:
  assumes "\<forall>p \<in> set ps. Q p" "\<And>p. post_id p = pid \<Longrightarrow> Q p \<Longrightarrow> Q (f p)"
  shows "\<forall>p \<in> set (update_post pid f ps). Q p"
  using assms update_first_in_set [of _ "\<lambda>p. post_id p = pid" f ps] unfolding update_post_def by blast

lemma search_posts_spec:
  "search_posts query ps =
     filter (\<lambda>p. sublist (js_lower query) (js_lower (content p)) \<or>
                 sublist (js_lower query) (js_lower (name (user p)))) ps"
  unfolding search_posts_def by (rule filter_cong) (simp_all add: matches_query_def js_includes_sublist)

end
