(* ===== verification/Formatters.thy ===== *)
theory Formatters
  imports Prelude
begin

text \<open>
  The three pure formatters of \<open>LinkUpApp\<close> (\<open>src/script.js\<close>):
  \<open>formatTime\<close> (relative age of a post), \<open>formatNumber\<close> (the K/M abbreviation of
  the profile counters) and \<open>formatPostContent\<close> (the hashtag and mention markup).
  \<open>formatNumber\<close> divides in IEEE binary64 and rounds with \<open>toFixed(1)\<close>; both are
  modelled exactly: the quotient is rounded to the nearest double (ties to even) and
  \<open>toFixed\<close> picks the integer \<open>n\<close> with \<open>n / 10\<close> nearest to that double, the larger
  one on a tie, as ECMA-262 specifies.
\<close>

section \<open>formatTime\<close>

text \<open>
  \<open>Math.floor(diff / 60000)\<close> on an integer number of milliseconds is the floor
  division \<open>div\<close> of \<open>int\<close> (also for a negative \<open>diff\<close>, a post stamped in the
  future). \<open>timestamp.toLocaleDateString()\<close> is the host's locale formatting: the
  parameter \<open>locale_date\<close>.
\<close>

definition format_time :: "(millis \<Rightarrow> string) \<Rightarrow> millis \<Rightarrow> millis \<Rightarrow> string" where
  "format_time locale_date now timestamp =
     (let diff = now - timestamp;
          minutes = diff div 60000;
          hours = diff div 3600000;
          days = diff div 86400000
      in if minutes < 1 then ''Just now''
         else if minutes < 60 then show_int minutes @ ''m''
         else if hours < 24 then show_int hours @ ''h''
         else if days < 7 then show_int days @ ''d''
         else locale_date timestamp)"

section \<open>Binary64 division and Number.prototype.toFixed(1)\<close>

text \<open>
  A positive double is \<open>m / 2 ^ s\<close>, written as the pair \<open>(m, s)\<close>.
  \<open>double_div p q\<close> is the double nearest to \<open>p / q\<close> for naturals \<open>0 < q\<close>:
  with \<open>2 ^ k \<le> p / q < 2 ^ (k + 1)\<close> the doubles of that binade are the multiples of
  \<open>2 ^ (k - 52)\<close>, and the quotient is rounded to the nearest one, ties to the even
  multiple. (Subnormals and overflow need quotients beyond \<open>2 ^ 1000\<close> either way and do
  not arise from the counters.)
\<close>

function log2_floor :: "nat \<Rightarrow> nat \<Rightarrow> nat" where
  "log2_floor p q = (if q = 0 \<or> p < 2 * q then 0 else Suc (log2_floor p (2 * q)))"
  by pat_completeness auto
termination
  by (relation "measure (\<lambda>(p, q). p - q)") auto

function log2_ceil_inv :: "nat \<Rightarrow> nat \<Rightarrow> nat" where
  "log2_ceil_inv p q = (if p = 0 \<or> q \<le> p then 0 else Suc (log2_ceil_inv (2 * p) q))"
  by pat_completeness auto
termination
  by (relation "measure (\<lambda>(p, q). q - p)") auto

definition round_half_even :: "nat \<Rightarrow> nat \<Rightarrow> nat" where
  "round_half_even a b =
     (let d = a div b; r = a mod b
      in if 2 * r < b then d else if b < 2 * r then Suc d else if even d then d else Suc d)"

definition double_div :: "nat \<Rightarrow> nat \<Rightarrow> nat \<times> nat" where
  "double_div p q =
     (if p = 0 then (0, 0)
      else if q \<le> p then
        (let k = log2_floor p q
         in if k \<le> 52 then (round_half_even (p * 2 ^ (52 - k)) q, 52 - k)
            else (round_half_even p (q * 2 ^ (k - 52)) * 2 ^ (k - 52), 0))
      else (let j = log2_ceil_inv p q in (round_half_even (p * 2 ^ (j + 52)) q, j + 52)))"

definition double_val :: "nat \<times> nat \<Rightarrow> real" where
  "double_val x = real (fst x) / 2 ^ snd x"

text \<open>
  \<open>x.toFixed(1)\<close> for \<open>0 \<le> x < 10 ^ 21\<close>: \<open>n = \<lfloor>10 x + 1/2\<rfloor>\<close>, its digits
  padded with zeros to at least two, and the point before the last digit.
\<close>

definition fixed1_digits :: "nat \<times> nat \<Rightarrow> nat" where
  "fixed1_digits x = (20 * fst x + 2 ^ snd x) div 2 ^ Suc (snd x)"

definition to_fixed1 :: "nat \<times> nat \<Rightarrow> string" where
  "to_fixed1 x =
     (let ds = show_nat (fixed1_digits x);
          ds' = replicate (2 - length ds) (CHR ''0'') @ ds
      in butlast ds' @ CHR ''.'' # [last ds'])"

section \<open>formatNumber\<close>

definition format_number :: "int \<Rightarrow> string" where
  "format_number num =
     (if 1000000 \<le> num then to_fixed1 (double_div (nat num) 1000000) @ ''M''
      else if 1000 \<le> num then to_fixed1 (double_div (nat num) 1000) @ ''K''
      else show_int num)"

section \<open>formatPostContent\<close>

text \<open>
  \<open>content.replace(/#(\w+)/g, ...)\<close>: the regular expression is tried at every
  position from the left; where the marker is followed by at least one word character
  (\<open>\w\<close> is \<open>[A-Za-z0-9_]\<close>) the longest such run is wrapped, and the search resumes
  after it. The second \<open>replace\<close> does the same for \<open>@\<close> on the result of the first.
\<close>

definition is_word_char :: "char \<Rightarrow> bool" where
  "is_word_char c \<longleftrightarrow>
     (let n = of_char c :: nat in (48 \<le> n \<and> n \<le> 57) \<or> (65 \<le> n \<and> n \<le> 90) \<or> (97 \<le> n \<and> n \<le> 122) \<or> n = 95)"

definition accent_open :: string where
  "accent_open = ''<span style='' @ [CHR 0x22] @ ''color: var(--accent-color);'' @ [CHR 0x22] @ ''>''"

definition accent_span :: "char \<Rightarrow> string \<Rightarrow> string" where
  "accent_span c w = accent_open @ c # w @ ''</span>''"

function replace_tag :: "char \<Rightarrow> string \<Rightarrow> string" where
  "replace_tag c [] = []"
| "replace_tag c [x] = [x]"
| "replace_tag c (x # y # zs) =
     (if x = c \<and> is_word_char y
      then accent_span c (takeWhile is_word_char (y # zs))
             @ replace_tag c (dropWhile is_word_char (y # zs))
      else x # replace_tag c (y # zs))"
  by pat_completeness auto
termination
  by (relation "measure (\<lambda>(c, s). length s)") (simp_all add: le_imp_less_Suc le_SucI length_dropWhile_le)

definition format_post_content :: "string \<Rightarrow> string" where
  "format_post_content content = replace_tag CHR ''@'' (replace_tag CHR ''#'' content)"


section \<open>Lemmas\<close>

declare log2_floor.simps [simp del] log2_ceil_inv.simps [simp del]

lemmas [js_eval] = format_time_def log2_floor.simps log2_ceil_inv.simps round_half_even_def
  double_div_def fixed1_digits_def to_fixed1_def format_number_def Let_def

lemma round_half_even_err:
  assumes "0 < b"
  shows "2 * \<bar>int (round_half_even a b) * int b - int a\<bar> \<le> int b"
proof -
  define d r where "d = a div b" and "r = a mod b"
  have "a = d * b + r" by (simp add: d_def r_def)
  then have a: "int a = int d * int b + int r" by (metis of_nat_add of_nat_mult)
  have "r < b" using assms by (simp add: r_def)
  then show ?thesis
    unfolding round_half_even_def Let_def d_def [symmetric] r_def [symmetric]
    using a by (auto simp: algebra_simps)
qed

text \<open>
  C12. \<open>formatTime\<close> sorts an age into buckets whose lower edge is inclusive and upper
  edge exclusive: under a minute \<open>Just now\<close>, then whole minutes below an hour, whole
  hours below a day, whole days below a week, and the locale date from seven days on.
\<close>

lemma format_time_buckets:
  "format_time locale_date now timestamp =
     (let diff = now - timestamp
      in if diff < 60000 then ''Just now''
         else if diff < 3600000 then show_int (diff div 60000) @ ''m''
         else if diff < 86400000 then show_int (diff div 3600000) @ ''h''
         else if diff < 604800000 then show_int (diff div 86400000) @ ''d''
         else locale_date timestamp)"
  by (simp add: format_time_def Let_def int_div_less_iff)

lemma log2_floor_bounds:
  "0 < q \<Longrightarrow> q \<le> p \<Longrightarrow> q * 2 ^ log2_floor p q \<le> p \<and> p < 2 * q * 2 ^ log2_floor p q"
proof (induction p q rule: log2_floor.induct)
  case (1 p q)
  show ?case
  proof (cases "p < 2 * q")
    case True
    with "1.prems" show ?thesis by (simp add: log2_floor.simps [of p q])
  next
    case False
    with "1.prems" have "2 * q * 2 ^ log2_floor p (2 * q) \<le> p \<and> p < 2 * (2 * q) * 2 ^ log2_floor p (2 * q)"
      using "1.IH" by simp
    with False "1.prems" show ?thesis by (simp add: log2_floor.simps [of p q] mult.assoc)
  qed
qed

lemma log2_floor_le:
  assumes "0 < q" "q \<le> p" "p < q * 2 ^ Suc n"
  shows "log2_floor p q \<le> n"
proof (rule ccontr)
  assume "\<not> log2_floor p q \<le> n"
  then have "Suc n \<le> log2_floor p q" by simp
  then have "(2::nat) ^ Suc n \<le> 2 ^ log2_floor p q" by (rule power_increasing) simp
  then have "q * 2 ^ Suc n \<le> q * 2 ^ log2_floor p q" by simp
  also have "\<dots> \<le> p" using log2_floor_bounds [OF assms(1,2)] by simp
  finally show False using assms(3) by simp
qed

lemma double_div_binade:
  assumes "0 < q" "q \<le> p" "p < q * 2 ^ 53"
  shows "double_div p q = (round_half_even (p * 2 ^ (52 - log2_floor p q)) q, 52 - log2_floor p q)"
proof -
  have "log2_floor p q \<le> 52" using log2_floor_le [of q p 52] assms by simp
  with assms show ?thesis by (simp add: double_div_def Let_def)
qed

lemma fixed1_digits_exact:
  assumes q: "0 < q"
    and err: "2 * \<bar>int m * int q - int P\<bar> \<le> int q"
    and val: "10 * P = j * q * 2 ^ s"
    and s: "10 < (2::nat) ^ s"
  shows "fixed1_digits (m, s) = j"
proof -
  define D :: int where "D = 2 ^ s"
  define X where "X = int m * int q"
  define Z where "Z = D * int q"
  have D: "10 < D" using s unfolding D_def by (metis of_nat_less_iff of_nat_numeral of_nat_power)
  have valI: "int j * int q * D = 10 * int P"
    unfolding D_def using val by (metis of_nat_mult of_nat_numeral of_nat_power)
  have e: "2 * (int P - X) \<le> int q" "2 * (X - int P) \<le> int q"
    using err unfolding X_def by arith+
  have z: "10 * int q < Z" using D q by (simp add: Z_def)
  have l: "2 * int j * D * int q = 20 * int P"
  proof -
    have "2 * int j * D * int q = 2 * (int j * int q * D)" by (simp add: algebra_simps)
    then show ?thesis using valI by simp
  qed
  have r: "(20 * int m + D) * int q = 20 * X + Z" by (simp add: X_def Z_def algebra_simps)
  have u: "2 * D * (int j + 1) * int q = 20 * int P + 2 * Z"
    using l by (simp add: Z_def algebra_simps)
  have "20 * int P \<le> 20 * X + Z" using e z by arith
  then have "2 * int j * D * int q \<le> (20 * int m + D) * int q" unfolding l r .
  then have lo: "2 * D * int j \<le> 20 * int m + D" using q by (simp add: mult.commute mult.left_commute)
  have "20 * X + Z < 20 * int P + 2 * Z" using e z by arith
  then have "(20 * int m + D) * int q < 2 * D * (int j + 1) * int q" unfolding u r .
  then have hi: "20 * int m + D < 2 * D * (int j + 1)"
    using q by (meson mult_right_less_imp_less of_nat_0_le_iff)
  have pos: "0 < 2 * D" using D by simp
  have "\<not> (20 * int m + D) div (2 * D) < int j"
    using lo int_div_less_iff [OF pos] by (simp add: mult.commute)
  moreover have "(20 * int m + D) div (2 * D) < int j + 1"
  proof -
    from hi have "20 * int m + D < (int j + 1) * (2 * D)" by (metis mult.commute)
    then show ?thesis by (simp only: int_div_less_iff [OF pos])
  qed
  ultimately have "(20 * int m + D) div (2 * D) = int j" by linarith
  moreover have "int (fixed1_digits (m, s)) = (20 * int m + D) div (2 * D)"
    by (simp add: fixed1_digits_def D_def zdiv_int)
  ultimately show ?thesis by simp
qed


lemma double_div_decimal:
  assumes "0 < q" "q \<le> p" "p < q * 2 ^ 49" "10 * p = j * q"
  shows "fixed1_digits (double_div p q) = j"
proof -
  let ?k = "log2_floor p q"
  let ?s = "52 - ?k"
  have k: "?k \<le> 48" using log2_floor_le [of q p 48] assms by simp
  have "q * 2 ^ 49 \<le> q * (2::nat) ^ 53" by (intro mult_le_mono2) simp
  with assms(3) have "p < q * 2 ^ 53" by linarith
  then have dd: "double_div p q = (round_half_even (p * 2 ^ ?s) q, ?s)"
    using double_div_binade assms(1,2) by blast
  have "(2::nat) ^ 4 \<le> 2 ^ ?s" using k by (intro power_increasing) simp_all
  then have s: "10 < (2::nat) ^ ?s" by simp
  have val: "10 * (p * 2 ^ ?s) = j * q * 2 ^ ?s" using assms(4) by simp
  show ?thesis
    unfolding dd by (rule fixed1_digits_exact [OF assms(1) round_half_even_err [OF assms(1)] val s])
qed

lemma to_fixed1_render:
  assumes "10 \<le> fixed1_digits x"
  shows "to_fixed1 x = show_nat (fixed1_digits x div 10) @ CHR ''.'' # [digit_char (fixed1_digits x mod 10)]"
proof -
  let ?n = "fixed1_digits x"
  have ds: "show_nat ?n = show_nat (?n div 10) @ [digit_char (?n mod 10)]"
    using assms by (simp add: show_nat.simps [of ?n])
  then have "2 \<le> length (show_nat ?n)"
    using show_nat_not_Nil [of "?n div 10"] by (cases "show_nat (?n div 10)") simp_all
  then show ?thesis by (simp add: to_fixed1_def ds)
qed

text \<open>
  C13. \<open>formatNumber\<close> renders every count in the thousands range that is a whole number of
  hundreds as its exact one-decimal value with the suffix \<open>K\<close>: the binary64 division
  and \<open>toFixed(1)\<close> lose nothing there.
\<close>

theorem format_number_thousands:
  assumes "10 \<le> j" "j < 10000"
  shows "format_number (100 * int j) = show_nat (j div 10) @ CHR ''.'' # digit_char (j mod 10) # ''K''"
proof -
  have "fixed1_digits (double_div (100 * j) 1000) = j"
    using assms by (intro double_div_decimal) simp_all
  with assms show ?thesis
    by (simp add: format_number_def nat_mult_distrib to_fixed1_render)
qed

text \<open>
  C14. Likewise every count of at least a million that is a whole number of hundred
  thousands (and a safe integer) renders as its exact one-decimal value with suffix \<open>M\<close>.
\<close>

theorem format_number_millions:
  assumes "10 \<le> j" "100000 * j < 2 ^ 53"
  shows "format_number (100000 * int j) = show_nat (j div 10) @ CHR ''.'' # digit_char (j mod 10) # ''M''"
proof -
  have "fixed1_digits (double_div (100000 * j) 1000000) = j"
    using assms by (intro double_div_decimal) simp_all
  with assms show ?thesis
    by (simp add: format_number_def nat_mult_distrib to_fixed1_render)
qed


text \<open>
  The division \<open>num / 1000000\<close> (or \<open>/ 1000\<close>) of \<open>formatNumber\<close> is correctly
  rounded: the double differs from the exact quotient by at most half a unit in the last
  place.
\<close>

lemma double_div_rel_error:
  assumes q: "0 < q" and qp: "q \<le> p" and p: "p < q * 2 ^ 53"
  shows "\<bar>double_val (double_div p q) - real p / real q\<bar> \<le> real p / real q / 2 ^ 53"
proof -
  let ?k = "log2_floor p q"
  let ?s = "52 - ?k"
  define m where "m = round_half_even (p * 2 ^ ?s) q"
  have k: "?k \<le> 52" using log2_floor_le [of q p 52] q qp p by simp
  have dd: "double_div p q = (m, ?s)" unfolding m_def using double_div_binade q qp p by blast
  have "2 * \<bar>int m * int q - int (p * 2 ^ ?s)\<bar> \<le> int q"
    unfolding m_def by (rule round_half_even_err [OF q])
  then have "real_of_int (2 * \<bar>int m * int q - int (p * 2 ^ ?s)\<bar>) \<le> real_of_int (int q)"
    by (simp only: of_int_le_iff)
  then have err: "2 * \<bar>real m * real q - real p * 2 ^ ?s\<bar> \<le> real q" by simp
  have "real q * 2 ^ ?k \<le> real p"
    using log2_floor_bounds [OF q qp] by (metis of_nat_le_iff of_nat_mult of_nat_numeral of_nat_power)
  then have pk: "2 ^ ?k \<le> real p / real q" using q by (simp add: field_simps)
  have pow: "(2::real) ^ ?k * 2 ^ ?s = 2 ^ 52"
    using k by (simp add: power_add [symmetric])
  have eq: "double_val (double_div p q) - real p / real q
              = (real m * real q - real p * 2 ^ ?s) / (real q * 2 ^ ?s)"
    using q by (simp add: dd double_val_def field_simps)
  have "\<bar>double_val (double_div p q) - real p / real q\<bar>
          = \<bar>real m * real q - real p * 2 ^ ?s\<bar> / (real q * 2 ^ ?s)"
    using q by (simp add: eq abs_divide)
  also have "\<dots> \<le> (real q / 2) / (real q * 2 ^ ?s)"
    using err q by (intro divide_right_mono) simp_all
  also have "\<dots> = 2 ^ ?k / 2 ^ 53"
    using q by (simp add: pow field_simps)
  also have "\<dots> \<le> real p / real q / 2 ^ 53"
    using pk by (simp add: divide_right_mono)
  finally show ?thesis .
qed

lemma fixed1_digits_floor: "int (fixed1_digits d) = \<lfloor>10 * double_val d + 1 / 2\<rfloor>"
proof -
  obtain m s where d: "d = (m, s)" by (cases d)
  have "10 * double_val d + 1 / 2 = real (20 * m + 2 ^ s) / real (2 ^ Suc s)"
    by (simp add: d double_val_def field_simps)
  then have "\<lfloor>10 * double_val d + 1 / 2\<rfloor> = int ((20 * m + 2 ^ s) div 2 ^ Suc s)"
    by (simp only: floor_divide_of_nat_eq)
  then show ?thesis by (simp add: d fixed1_digits_def)
qed

text \<open>
  C15. Every count from 999950 to 999999 renders as \<open>1000.0K\<close>, not as a value in
  millions: the division by 1000 lands within half an ulp of a value that \<open>toFixed(1)\<close>
  rounds up to 1000.0, and the branch for millions starts only at 1000000.
\<close>

theorem format_number_carry:
  assumes "999950 \<le> num" "num < 1000000"
  shows "format_number num = ''1000.0K''"
proof (cases "num = 999950")
  case True
  then show ?thesis by (simp add: js_eval)
next
  case False
  define p where "p = nat num"
  have p: "999951 \<le> p" "p \<le> 999999" using assms False by (simp_all add: p_def)
  define x where "x = double_val (double_div p 1000)"
  have "\<bar>x - real p / 1000\<bar> \<le> real p / 1000 / 2 ^ 53"
    unfolding x_def using double_div_rel_error [of 1000 p] p by simp
  also have "\<dots> \<le> 1 / 10000" using p by simp
  finally have e: "\<bar>x - real p / 1000\<bar> \<le> 1 / 10000" .
  have lo: "real p / 1000 - 1 / 10000 \<le> x" and hi: "x \<le> real p / 1000 + 1 / 10000"
    using abs_le_D1 [OF e] abs_le_D2 [OF e] by linarith+
  have "999951 \<le> real p" "real p \<le> 999999" using p by simp_all
  with lo hi have "10000 \<le> 10 * x + 1 / 2" "10 * x + 1 / 2 < 10001" by linarith+
  then have "\<lfloor>10 * x + 1 / 2\<rfloor> = 10000" by (intro floor_unique) simp_all
  then have fx: "fixed1_digits (double_div p 1000) = 10000"
    using fixed1_digits_floor [of "double_div p 1000"] unfolding x_def by simp
  have sn: "show_nat 1000 = ''1000''" and c0: "digit_char 0 = CHR ''0''" by (simp_all add: js_eval)
  have "to_fixed1 (double_div p 1000) = ''1000.0''"
    using to_fixed1_render [of "double_div p 1000"] by (simp add: fx sn c0)
  then show ?thesis using assms unfolding p_def by (simp add: format_number_def)
qed


lemma replace_tag_no_marker: "c \<notin> set s \<Longrightarrow> replace_tag c s = s"
  by (induction c s rule: replace_tag.induct) auto

lemma replace_tag_append:
  "v = [] \<or> \<not> is_word_char (hd v) \<Longrightarrow> replace_tag c (u @ v) = replace_tag c u @ replace_tag c v"
proof (induction c u rule: replace_tag.induct)
  case (1 c)
  then show ?case by simp
next
  case (2 c x)
  then show ?case by (cases v) auto
next
  case (3 c x y zs)
  show ?case
  proof (cases "x = c \<and> is_word_char y")
    case True
    have t: "takeWhile is_word_char (y # zs @ v) = takeWhile is_word_char (y # zs)"
      using takeWhile_append_stop [of v is_word_char "y # zs"] "3.prems" by simp
    have d: "dropWhile is_word_char (y # zs @ v) = dropWhile is_word_char (y # zs) @ v"
      using dropWhile_append_stop [of v is_word_char "y # zs"] "3.prems" by simp
    from True "3.IH"(1) "3.prems" show ?thesis
      by (simp only: append_Cons replace_tag.simps(3) t d if_True) simp
  next
    case False
    have "replace_tag c ((x # y # zs) @ v) = x # replace_tag c ((y # zs) @ v)"
      by (simp only: append_Cons replace_tag.simps(3) if_not_P [OF False])
    also have "\<dots> = x # replace_tag c (y # zs) @ replace_tag c v"
      using "3.IH"(2) [OF False "3.prems"] by simp
    also have "\<dots> = replace_tag c (x # y # zs) @ replace_tag c v"
      by (simp only: replace_tag.simps(3) if_not_P [OF False] append_Cons)
    finally show ?thesis .
  qed
qed

lemma replace_tag_token:
  assumes "w \<noteq> []" "\<forall>ch \<in> set w. is_word_char ch" "v = [] \<or> \<not> is_word_char (hd v)"
  shows "replace_tag c (c # w @ v) = accent_span c w @ replace_tag c v"
proof -
  obtain y ys where w: "w = y # ys" using assms(1) by (cases w) auto
  have t: "takeWhile is_word_char (w @ v) = w"
    using assms(2,3) by (simp add: takeWhile_stop)
  have d: "dropWhile is_word_char (w @ v) = v"
    using assms(2,3) by (simp add: dropWhile_stop)
  show ?thesis using t d assms(2) by (simp add: w)
qed

lemma replace_tag_hd:
  "replace_tag c (x # xs) \<noteq> [] \<and> hd (replace_tag c (x # xs)) \<in> {x, CHR ''<''}"
  by (cases xs) (auto simp: accent_span_def accent_open_def)

lemma replace_tag_keeps_stop:
  assumes "v = [] \<or> \<not> is_word_char (hd v)"
  shows "replace_tag c v = [] \<or> \<not> is_word_char (hd (replace_tag c v))"
proof (cases v)
  case (Cons x xs)
  with assms replace_tag_hd [of c x xs] show ?thesis
    by (auto simp: is_word_char_def)
qed simp

lemma accent_span_no_at: "CHR ''@'' \<notin> set (accent_span CHR ''#'' w) \<longleftrightarrow> CHR ''@'' \<notin> set w"
  by (simp add: accent_span_def accent_open_def)

lemma word_no_markers: "\<forall>ch \<in> set w. is_word_char ch \<Longrightarrow> CHR ''#'' \<notin> set w \<and> CHR ''@'' \<notin> set w"
  by (auto simp: is_word_char_def)

text \<open>
  C16. \<open>formatPostContent\<close> wraps a hashtag \<open>#word\<close> (a maximal run of word characters)
  in one accent span and formats the text around it independently.
\<close>

theorem format_post_content_hashtag:
  assumes "w \<noteq> []" "\<forall>ch \<in> set w. is_word_char ch" "v = [] \<or> \<not> is_word_char (hd v)"
  shows "format_post_content (u @ CHR ''#'' # w @ v)
           = format_post_content u @ accent_span CHR ''#'' w @ format_post_content v"
proof -
  have nw: "\<not> is_word_char CHR ''#''" "\<not> is_word_char CHR ''<''" by (simp_all add: is_word_char_def)
  have "replace_tag CHR ''#'' (u @ CHR ''#'' # w @ v)
          = replace_tag CHR ''#'' u @ accent_span CHR ''#'' w @ replace_tag CHR ''#'' v"
    using assms nw by (simp add: replace_tag_append replace_tag_token)
  moreover have "replace_tag CHR ''@'' (accent_span CHR ''#'' w) = accent_span CHR ''#'' w"
    using word_no_markers [OF assms(2)] by (simp add: replace_tag_no_marker accent_span_no_at)
  moreover have "hd (accent_span CHR ''#'' w @ r) = CHR ''<''" for r
    by (simp add: accent_span_def accent_open_def)
  ultimately show ?thesis
    using replace_tag_keeps_stop [OF assms(3), of "CHR ''#''"] nw
    by (simp add: format_post_content_def replace_tag_append)
qed

text \<open>
  C17. \<open>formatPostContent\<close> wraps a mention \<open>@word\<close> in one accent span and formats the
  text around it independently.
\<close>

theorem format_post_content_mention:
  assumes "w \<noteq> []" "\<forall>ch \<in> set w. is_word_char ch" "v = [] \<or> \<not> is_word_char (hd v)"
  shows "format_post_content (u @ CHR ''@'' # w @ v)
           = format_post_content u @ accent_span CHR ''@'' w @ format_post_content v"
proof -
  have nw: "\<not> is_word_char CHR ''@''" by (simp add: is_word_char_def)
  let ?v = "replace_tag CHR ''#'' v"
  have "replace_tag CHR ''#'' (u @ CHR ''@'' # w @ v) = replace_tag CHR ''#'' u @ CHR ''@'' # w @ ?v"
  proof -
    have "replace_tag CHR ''#'' (CHR ''@'' # w @ v) = CHR ''@'' # replace_tag CHR ''#'' (w @ v)"
      using assms(1) by (cases w) simp_all
    also have "\<dots> = CHR ''@'' # w @ ?v"
      using assms(3) word_no_markers [OF assms(2)] by (simp add: replace_tag_append replace_tag_no_marker)
    finally show ?thesis using nw by (simp add: replace_tag_append)
  qed
  moreover have "replace_tag CHR ''@'' (CHR ''@'' # w @ ?v) = accent_span CHR ''@'' w @ replace_tag CHR ''@'' ?v"
    using assms(1,2) replace_tag_keeps_stop [OF assms(3)] by (rule replace_tag_token)
  ultimately show ?thesis
    using nw by (simp add: format_post_content_def replace_tag_append)
qed

text \<open>
  C18. Text without \<open>#\<close> and \<open>@\<close> passes through \<open>formatPostContent\<close> unchanged, markup
  included: the post text reaches \<open>innerHTML\<close> unescaped.
\<close>

theorem format_post_content_plain:
  "CHR ''#'' \<notin> set content \<Longrightarrow> CHR ''@'' \<notin> set content \<Longrightarrow> format_post_content content = content"
  by (simp add: format_post_content_def replace_tag_no_marker)


section \<open>Witnesses\<close>

lemma format_number_carry_witness:
  "999950 \<le> (999975::int) \<and> (999975::int) < 1000000 \<and> format_number 999975 = ''1000.0K''"
  using format_number_carry [of 999975] by simp

lemma format_number_thousands_witness:
  "10 \<le> (12::nat) \<and> (12::nat) < 10000 \<and> format_number (100 * int 12) = ''1.2K''"
  using format_number_thousands [of 12] by (simp add: js_eval)

lemma format_number_millions_witness:
  "10 \<le> (58::nat) \<and> 100000 * (58::nat) < 2 ^ 53 \<and> format_number (100000 * int 58) = ''5.8M''"
  using format_number_millions [of 58] by (simp add: js_eval)

lemma format_post_content_hashtag_witness:
  "list_all is_word_char ''India'' \<and> \<not> is_word_char (hd ''!'') \<and>
   format_post_content (''hello '' @ CHR ''#'' # ''India'' @ ''!'')
     = ''hello '' @ accent_span CHR ''#'' ''India'' @ ''!''"
proof -
  have w: "\<forall>ch \<in> set ''India''. is_word_char ch" and v: "\<not> is_word_char (hd ''!'')"
    by (simp_all add: is_word_char_def)
  have p: "format_post_content ''hello '' = ''hello ''" "format_post_content ''!'' = ''!''"
    by (simp_all add: format_post_content_def replace_tag_no_marker)
  show ?thesis using format_post_content_hashtag [of "''India''" "''!''" "''hello ''"] w v p by simp
qed

lemma format_post_content_mention_witness:
  "list_all is_word_char ''bob_1'' \<and> \<not> is_word_char (hd '' hi'') \<and>
   format_post_content (''cc '' @ CHR ''@'' # ''bob_1'' @ '' hi'')
     = ''cc '' @ accent_span CHR ''@'' ''bob_1'' @ '' hi''"
proof -
  have w: "\<forall>ch \<in> set ''bob_1''. is_word_char ch" and v: "\<not> is_word_char (hd '' hi'')"
    by (simp_all add: is_word_char_def)
  have p: "format_post_content ''cc '' = ''cc ''" "format_post_content '' hi'' = '' hi''"
    by (simp_all add: format_post_content_def replace_tag_no_marker)
  show ?thesis using format_post_content_mention [of "''bob_1''" "'' hi''" "''cc ''"] w v p by simp
qed

lemma format_post_content_plain_witness:
  "CHR ''#'' \<notin> set ''<img src=x onerror=alert(1)>'' \<and> CHR ''@'' \<notin> set ''<img src=x onerror=alert(1)>'' \<and>
   format_post_content ''<img src=x onerror=alert(1)>'' = ''<img src=x onerror=alert(1)>''"
  using format_post_content_plain [of "''<img src=x onerror=alert(1)>''"] by simp

end
