(* ===== verification/Feed.thy ===== *)
theory Feed
  imports Posts Formatters
begin

text \<open>
  The feed renderer of \<open>LinkUpApp\<close> (\<open>src/script.js\<close>): \<open>createPostElement\<close> builds
  one \<open>post-card\<close> from a post, and \<open>renderPosts\<close> replaces the content of
  \<open>#postsFeed\<close> with the cards of a post list, or with the \<open>no-posts\<close> message when
  the list is empty. A card is modelled by the values its template interpolates, in the
  template's order; \<open>formatTime\<close> reads \<open>new Date()\<close>, the parameter \<open>now\<close> of one
  rendering pass, and \<open>toLocaleDateString\<close> is the parameter \<open>locale_date\<close>.
\<close>

record card =
  card_avatar :: string \<comment> \<open>\<open>src\<close> of the avatar image\<close>
  card_name :: string \<comment> \<open>its \<open>alt\<close> and the \<open>h4\<close> heading\<close>
  card_username :: string
  card_time :: string
  card_text :: string \<comment> \<open>the \<open>innerHTML\<close> of \<open>.post-text\<close>\<close>
  card_image :: "string option" \<comment> \<open>the post image, also the argument of \<open>openModal\<close>\<close>
  card_like_class :: string
  card_post_id :: int \<comment> \<open>the id the four action buttons pass to \<open>handlePostAction\<close>\<close>
  card_likes :: string
  card_retweet_class :: string
  card_retweets :: string
  card_comments :: string

definition create_post_element :: "(millis \<Rightarrow> string) \<Rightarrow> millis \<Rightarrow> post \<Rightarrow> card" where
  "create_post_element locale_date now p =
     \<lparr>card_avatar = avatar (user p),
      card_name = name (user p),
      card_username = username (user p),
      card_time = format_time locale_date now (timestamp p),
      card_text = format_post_content (content p),
      card_image = image p,
      card_like_class = ''post-action '' @ (if liked p then ''liked'' else ''''),
      card_post_id = post_id p,
      card_likes = show_int (likes p),
      card_retweet_class = ''post-action '' @ (if retweeted p then ''retweeted'' else ''''),
      card_retweets = show_int (retweets p),
      card_comments = show_int (comments p)\<rparr>"

datatype feed = No_posts_found | Cards "card list"

definition render_posts :: "(millis \<Rightarrow> string) \<Rightarrow> millis \<Rightarrow> post list \<Rightarrow> feed" where
  "render_posts locale_date now ps =
     (if ps = [] then No_posts_found else Cards (map (create_post_element locale_date now) ps))"

text \<open>
  The view-model typing: the class attributes take one of their two values and the three
  counters are decimal numerals (no sign), as the page's markup expects.
\<close>

definition is_decimal :: "string \<Rightarrow> bool" where
  "is_decimal w \<longleftrightarrow> w \<noteq> [] \<and> list_all is_digit w"

definition card_typed :: "card \<Rightarrow> bool" where
  "card_typed c \<longleftrightarrow>
     card_like_class c \<in> {''post-action '', ''post-action liked''} \<and>
     card_retweet_class c \<in> {''post-action '', ''post-action retweeted''} \<and>
     is_decimal (card_likes c) \<and> is_decimal (card_retweets c) \<and> is_decimal (card_comments c)"

definition feed_typed :: "feed \<Rightarrow> bool" where
  "feed_typed f = (case f of No_posts_found \<Rightarrow> True | Cards cs \<Rightarrow> list_all card_typed cs)"

section \<open>Lemmas\<close>

lemma show_int_decimal: "0 \<le> i \<Longrightarrow> is_decimal (show_int i)"
  using show_nat_digits [of "nat i"] by (simp add: show_int_def is_decimal_def list_all_iff)

lemma card_typed_create_post_element: "engagement_ok p \<Longrightarrow> card_typed (create_post_element ld now p)"
  by (simp add: card_typed_def create_post_element_def engagement_ok_def show_int_decimal)

lemma render_posts_typed: "\<forall>p \<in> set ps. engagement_ok p \<Longrightarrow> feed_typed (render_posts ld now ps)"
  by (simp add: render_posts_def feed_typed_def list_all_iff card_typed_create_post_element)

end
