(* ===== verification/Notifications.thy ===== *)
theory Notifications
  imports Prelude
begin

text \<open>
  \<open>showNotification\<close> (\<open>src/script.js\<close>): a toast is appended to \<open>document.body\<close>, a
  timer of 3000 ms starts its slide-out animation, and that timer's callback starts a
  second timer of 300 ms that removes the element. Timers are explicit: the state holds the
  toasts on screen and the pending timers, and the browser may fire any pending timer whose
  delay has passed (a timer can run late, never early). The lemmas give the invariant
  \<open>toasts_ok\<close> (one pending timer per toast on screen) and its preservation, that no toast
  disappears before sliding out, and that the toasts drain once their timers are due.
\<close>

datatype note_type = Info | Success | Warning | Danger

record notification =
  note_id :: nat
  message :: string
  note_type :: note_type
  sliding_out :: bool \<comment> \<open>\<open>notification.style.animation = 'slideOut 0.3s ease-in'\<close>\<close>

datatype timer_action = Slide_out nat | Remove_note nat

record timer =
  due :: millis
  timer_action :: timer_action

record toasts =
  shown :: "notification list"
  timers :: "timer list"
  next_note :: nat

definition no_toasts :: toasts where
  "no_toasts = \<lparr>shown = [], timers = [], next_note = 0\<rparr>"

definition show_notification :: "millis \<Rightarrow> string \<Rightarrow> note_type \<Rightarrow> toasts \<Rightarrow> toasts" where
  "show_notification now msg ty ns =
     (let i = next_note ns
      in ns\<lparr>shown := shown ns @ [\<lparr>note_id = i, message = msg, note_type = ty, sliding_out = False\<rparr>],
            timers := timers ns @ [\<lparr>due = now + 3000, timer_action = Slide_out i\<rparr>],
            next_note := Suc i\<rparr>)"

text \<open>
  The two callbacks. \<open>notification.remove()\<close> of an element that is no longer in the
  document does nothing, hence \<open>filter\<close>.
\<close>

fun run_timer :: "millis \<Rightarrow> timer_action \<Rightarrow> toasts \<Rightarrow> toasts" where
  "run_timer now (Slide_out i) ns =
     ns\<lparr>shown := map (\<lambda>n. if note_id n = i then n\<lparr>sliding_out := True\<rparr> else n) (shown ns),
        timers := timers ns @ [\<lparr>due = now + 300, timer_action = Remove_note i\<rparr>]\<rparr>"
| "run_timer now (Remove_note i) ns = ns\<lparr>shown := filter (\<lambda>n. note_id n \<noteq> i) (shown ns)\<rparr>"

text \<open>Firing the \<open>k\<close>-th pending timer at time \<open>now\<close>; \<open>None\<close> when it is not due yet.\<close>

definition fire_timer :: "millis \<Rightarrow> nat \<Rightarrow> toasts \<Rightarrow> toasts option" where
  "fire_timer now k ns =
     (if k < length (timers ns) \<and> due (timers ns ! k) \<le> now
      then Some (run_timer now (timer_action (timers ns ! k)) (ns\<lparr>timers := remove_at k (timers ns)\<rparr>))
      else None)"

text \<open>
  The note a timer acts on, and the well-formedness of the toast state: the toasts on
  screen have distinct ids below the counter, and each has exactly one pending timer,
  the slide-out timer before its animation started and the removal timer after.
\<close>

fun timer_target :: "timer_action \<Rightarrow> nat" where
  "timer_target (Slide_out i) = i"
| "timer_target (Remove_note i) = i"

definition pending_ids :: "toasts \<Rightarrow> nat list" where
  "pending_ids ns = map (\<lambda>x. timer_target (timer_action x)) (timers ns)"

definition toasts_ok :: "toasts \<Rightarrow> bool" where
  "toasts_ok ns \<longleftrightarrow>
     distinct (map note_id (shown ns)) \<and> distinct (pending_ids ns) \<and>
     set (pending_ids ns) = set (map note_id (shown ns)) \<and>
     (\<forall>n \<in> set (shown ns). note_id n < next_note ns) \<and>
     (\<forall>n \<in> set (shown ns). \<forall>x \<in> set (timers ns). timer_target (timer_action x) = note_id n \<longrightarrow>
        timer_action x = (if sliding_out n then Remove_note (note_id n) else Slide_out (note_id n)))"

text \<open>
  The event loop at time \<open>now\<close> running the due timers oldest first, at most \<open>f\<close> of
  them: it stops at the first pending timer that is not due.
\<close>

fun fire_due :: "millis \<Rightarrow> nat \<Rightarrow> toasts \<Rightarrow> toasts" where
  "fire_due now 0 ns = ns"
| "fire_due now (Suc f) ns = (case fire_timer now 0 ns of None \<Rightarrow> ns | Some ns' \<Rightarrow> fire_due now f ns')"

text \<open>Two toasts, shown at 1000 and 1500 ms.\<close>

definition demo_toasts :: toasts where
  "demo_toasts = show_notification 1500 ''Comment added!'' Info (show_notification 1000 ''Post published successfully!'' Success no_toasts)"

section \<open>Lemmas\<close>

lemma toasts_ok_no_toasts: "toasts_ok no_toasts"
  by (simp add: toasts_ok_def no_toasts_def pending_ids_def)

lemma toasts_ok_intro:
  assumes "distinct (map note_id (shown ns))" "distinct (pending_ids ns)"
    "set (pending_ids ns) = note_id ` set (shown ns)" "\<And>n. n \<in> set (shown ns) \<Longrightarrow> note_id n < next_note ns"
    "\<And>n x. n \<in> set (shown ns) \<Longrightarrow> x \<in> set (timers ns) \<Longrightarrow> timer_target (timer_action x) = note_id n \<Longrightarrow>
        timer_action x = (if sliding_out n then Remove_note (note_id n) else Slide_out (note_id n))"
  shows "toasts_ok ns"
  using assms by (simp add: toasts_ok_def)

lemma toasts_okD:
  assumes "toasts_ok ns"
  shows "distinct (map note_id (shown ns))" "distinct (pending_ids ns)"
    "set (pending_ids ns) = note_id ` set (shown ns)" "n \<in> set (shown ns) \<Longrightarrow> note_id n < next_note ns"
    "n \<in> set (shown ns) \<Longrightarrow> x \<in> set (timers ns) \<Longrightarrow> timer_target (timer_action x) = note_id n \<Longrightarrow>
       timer_action x = (if sliding_out n then Remove_note (note_id n) else Slide_out (note_id n))"
  using assms unfolding toasts_ok_def by simp_all

lemma toasts_ok_show_notification:
  assumes ok: "toasts_ok ns"
  shows "toasts_ok (show_notification now msg ty ns)" (is "toasts_ok ?ns")
proof -
  let ?i = "next_note ns"
  have fresh: "?i \<notin> note_id ` set (shown ns)"
    by (auto dest: toasts_okD(4) [OF ok])
  have sh: "shown ?ns = shown ns @ [\<lparr>note_id = ?i, message = msg, note_type = ty, sliding_out = False\<rparr>]"
    and tm: "timers ?ns = timers ns @ [\<lparr>due = now + 3000, timer_action = Slide_out ?i\<rparr>]"
    and nx: "next_note ?ns = Suc ?i"
    by (simp_all add: show_notification_def Let_def)
  have pend: "pending_ids ?ns = pending_ids ns @ [?i]" by (simp add: pending_ids_def tm)
  have tt: "x \<in> set (timers ns) \<Longrightarrow> timer_target (timer_action x) \<in> note_id ` set (shown ns)" for x
    using toasts_okD(3) [OF ok] unfolding pending_ids_def by auto
  show ?thesis
  proof (rule toasts_ok_intro)
    show "distinct (map note_id (shown ?ns))" using toasts_okD(1) [OF ok] fresh sh by simp
    show "distinct (pending_ids ?ns)" using toasts_okD(2,3) [OF ok] fresh pend by simp
    show "set (pending_ids ?ns) = note_id ` set (shown ?ns)" using toasts_okD(3) [OF ok] pend sh by simp
    show "note_id n < next_note ?ns" if "n \<in> set (shown ?ns)" for n
      using that toasts_okD(4) [OF ok] sh nx by fastforce
    show "timer_action x = (if sliding_out n then Remove_note (note_id n) else Slide_out (note_id n))"
      if n: "n \<in> set (shown ?ns)" and x: "x \<in> set (timers ?ns)" and t: "timer_target (timer_action x) = note_id n" for n x
    proof -
      consider "n \<in> set (shown ns)" "x \<in> set (timers ns)" | "n \<in> set (shown ns)" "timer_action x = Slide_out ?i"
        | "n = \<lparr>note_id = ?i, message = msg, note_type = ty, sliding_out = False\<rparr>" "x \<in> set (timers ns)"
        | "n = \<lparr>note_id = ?i, message = msg, note_type = ty, sliding_out = False\<rparr>" "timer_action x = Slide_out ?i"
        using n x sh tm by auto
      then show ?thesis
      proof cases
        case 1 then show ?thesis using toasts_okD(5) [OF ok] t by blast
      next
        case 2 then show ?thesis using fresh t by force
      next
        case 3 then show ?thesis using fresh t tt by force
      next
        case 4 then show ?thesis by simp
      qed
    qed
  qed
qed

lemma toasts_ok_pending_kind:
  assumes ok: "toasts_ok ns" and x: "x \<in> set (timers ns)"
  obtains n where "n \<in> set (shown ns)" "note_id n = timer_target (timer_action x)"
    "timer_action x = (if sliding_out n then Remove_note (note_id n) else Slide_out (note_id n))"
proof -
  have "timer_target (timer_action x) \<in> note_id ` set (shown ns)"
    using x toasts_okD(3) [OF ok] unfolding pending_ids_def by auto
  then obtain n where n: "n \<in> set (shown ns)" "note_id n = timer_target (timer_action x)" by auto
  then show ?thesis using that toasts_okD(5) [OF ok n(1) x] by simp
qed

lemma pending_remove_at:
  assumes ok: "toasts_ok ns" and k: "k < length (timers ns)"
  shows "distinct (map (\<lambda>x. timer_target (timer_action x)) (remove_at k (timers ns)))"
    and "set (map (\<lambda>x. timer_target (timer_action x)) (remove_at k (timers ns))) =
           note_id ` set (shown ns) - {timer_target (timer_action (timers ns ! k))}"
proof -
  have p: "map (\<lambda>x. timer_target (timer_action x)) (remove_at k (timers ns)) = remove_at k (pending_ids ns)"
    by (simp add: pending_ids_def map_remove_at)
  show "distinct (map (\<lambda>x. timer_target (timer_action x)) (remove_at k (timers ns)))"
    unfolding p by (rule distinct_remove_at [OF toasts_okD(2) [OF ok]])
  have "set (remove_at k (pending_ids ns)) = set (pending_ids ns) - {pending_ids ns ! k}"
    using toasts_okD(2) [OF ok] k by (simp add: set_remove_at_distinct pending_ids_def)
  then show "set (map (\<lambda>x. timer_target (timer_action x)) (remove_at k (timers ns))) =
           note_id ` set (shown ns) - {timer_target (timer_action (timers ns ! k))}"
    unfolding p using toasts_okD(3) [OF ok] k by (simp add: pending_ids_def)
qed

lemma toasts_ok_fire_timer:
  assumes ok: "toasts_ok ns" and fire: "fire_timer now k ns = Some ns'"
  shows "toasts_ok ns'"
proof -
  let ?x = "timers ns ! k" and ?T = "remove_at k (timers ns)"
  let ?tt = "\<lambda>x. timer_target (timer_action x)"
  have k: "k < length (timers ns)" and ns': "ns' = run_timer now (timer_action ?x) (ns\<lparr>timers := ?T\<rparr>)"
    using fire by (simp_all add: fire_timer_def split: if_splits)
  have x: "?x \<in> set (timers ns)" using k by simp
  note d = pending_remove_at [OF ok k]
  have others: "y \<in> set ?T \<Longrightarrow> ?tt y \<noteq> ?tt ?x" for y
  proof -
    assume "y \<in> set ?T"
    then have "?tt y \<in> set (map ?tt ?T)" by simp
    then show ?thesis unfolding d(2) by blast
  qed
  note old = toasts_okD(5) [OF ok]
  have T_sub: "y \<in> set ?T \<Longrightarrow> y \<in> set (timers ns)" for y
    using set_remove_at_subset [of k "timers ns"] by blast
  note ids_ok = toasts_okD(1,3,4) [OF ok]
  obtain n where n: "n \<in> set (shown ns)" "note_id n = ?tt ?x"
    "timer_action ?x = (if sliding_out n then Remove_note (note_id n) else Slide_out (note_id n))"
    by (rule toasts_ok_pending_kind [OF ok x])
  show ?thesis
  proof (cases "sliding_out n")
    case False
    let ?j = "note_id n"
    let ?mark = "\<lambda>m. if note_id m = ?j then m\<lparr>sliding_out := True\<rparr> else m"
    have act: "timer_action ?x = Slide_out ?j" using n(3) False by simp
    have sh: "shown ns' = map ?mark (shown ns)" and tm: "timers ns' = ?T @ [\<lparr>due = now + 300, timer_action = Remove_note ?j\<rparr>]"
        and nx: "next_note ns' = next_note ns"
      unfolding ns' act by simp_all
    have ids: "map note_id (map ?mark (shown ns)) = map note_id (shown ns)"
      by (induction "shown ns") auto
    have ids_set: "note_id ` set (shown ns') = note_id ` set (shown ns)"
      using ids unfolding sh by (metis list.set_map)
    have pend: "pending_ids ns' = map ?tt ?T @ [?j]" unfolding pending_ids_def tm by simp
    show ?thesis
    proof (rule toasts_ok_intro)
      show "distinct (map note_id (shown ns'))" unfolding sh ids by (rule ids_ok(1))
      show "distinct (pending_ids ns')" unfolding pend using d n(2) by simp
      have jin: "?tt ?x \<in> note_id ` set (shown ns)" using n(1) n(2) by force
      show "set (pending_ids ns') = note_id ` set (shown ns')"
        unfolding pend ids_set n(2) using d(2) jin by (simp add: insert_absorb)
      show "note_id m < next_note ns'" if m: "m \<in> set (shown ns')" for m
      proof -
        obtain m0 where "m0 \<in> set (shown ns)" "m = ?mark m0" using m unfolding sh by auto
        then show ?thesis using ids_ok(3) [of m0] unfolding nx by simp
      qed
      show "timer_action y = (if sliding_out m then Remove_note (note_id m) else Slide_out (note_id m))"
        if m: "m \<in> set (shown ns')" and y: "y \<in> set (timers ns')" and t: "?tt y = note_id m" for m y
      proof -
        obtain m0 where m0: "m0 \<in> set (shown ns)" "m = ?mark m0" using m unfolding sh by auto
        have idm: "note_id m = note_id m0" using m0(2) by simp
        show ?thesis
        proof (cases "y \<in> set ?T")
          case True
          have "?tt y \<noteq> ?j" using others [OF True] n(2) by simp
          then have ne: "note_id m0 \<noteq> ?j" using t idm by simp
          then have "m = m0" using m0(2) by simp
          then show ?thesis using old [OF m0(1) T_sub [OF True]] t idm by simp
        next
          case False
          then have act_y: "timer_action y = Remove_note ?j" using y unfolding tm by auto
          then have "note_id m0 = ?j" using t idm by simp
          then have "m = m0\<lparr>sliding_out := True\<rparr>" using m0(2) by simp
          then show ?thesis using act_y idm \<open>note_id m0 = ?j\<close> by simp
        qed
      qed
    qed
  next
    case True
    let ?j = "note_id n"
    have act: "timer_action ?x = Remove_note ?j" using n(3) True by simp
    have sh: "shown ns' = filter (\<lambda>m. note_id m \<noteq> ?j) (shown ns)" and tm: "timers ns' = ?T"
        and nx: "next_note ns' = next_note ns"
      unfolding ns' act by simp_all
    show ?thesis
    proof (rule toasts_ok_intro)
      show "distinct (map note_id (shown ns'))" using ids_ok(1) unfolding sh by (simp add: distinct_map_filter)
      show "distinct (pending_ids ns')" using d(1) unfolding pending_ids_def tm .
      show "set (pending_ids ns') = note_id ` set (shown ns')"
        unfolding pending_ids_def tm sh d(2) using n(2) by auto
      show "note_id m < next_note ns'" if "m \<in> set (shown ns')" for m
        using that ids_ok(3) unfolding sh nx by simp
      show "timer_action y = (if sliding_out m then Remove_note (note_id m) else Slide_out (note_id m))"
        if "m \<in> set (shown ns')" "y \<in> set (timers ns')" "?tt y = note_id m" for m y
      proof -
        have "m \<in> set (shown ns)" "y \<in> set (timers ns)" using that(1,2) T_sub unfolding sh tm by simp_all
        then show ?thesis using old that(3) by blast
      qed
    qed
  qed
qed

lemma fire_timer_0:
  "fire_timer now 0 ns =
     (case timers ns of [] \<Rightarrow> None
      | x # rest \<Rightarrow> if due x \<le> now then Some (run_timer now (timer_action x) (ns\<lparr>timers := rest\<rparr>)) else None)"
  by (simp add: fire_timer_def split: list.split)

lemma toasts_ok_no_timers: "toasts_ok ns \<Longrightarrow> timers ns = [] \<Longrightarrow> shown ns = []"
  using toasts_okD(3) [of ns] by (simp add: pending_ids_def)

lemma fire_due_slide_phase:
  assumes "toasts_ok ns" "timers ns = A @ B" "list_all (\<lambda>x. due x \<le> t) A"
    "list_all (\<lambda>x. t < due x \<and> due x \<le> t + 300 \<and> (\<exists>i. timer_action x = Remove_note i)) B" "length A \<le> f"
  shows "toasts_ok (fire_due t f ns) \<and>
    list_all (\<lambda>x. due x \<le> t + 300 \<and> (\<exists>i. timer_action x = Remove_note i)) (timers (fire_due t f ns))"
  using assms
proof (induction f arbitrary: ns A B)
  case 0
  then show ?case by (simp add: list_all_iff)
next
  case (Suc f)
  show ?case
  proof (cases A)
    case Nil
    then have "fire_due t (Suc f) ns = ns" using Suc.prems(2,4) by (cases B) (simp_all add: fire_timer_0)
    then show ?thesis using Suc.prems Nil by (simp add: list_all_iff)
  next
    case (Cons a A')
    let ?ns1 = "run_timer t (timer_action a) (ns\<lparr>timers := A' @ B\<rparr>)"
    have fire: "fire_timer t 0 ns = Some ?ns1" using Suc.prems(2,3) Cons by (simp add: fire_timer_0)
    have ok1: "toasts_ok ?ns1" by (rule toasts_ok_fire_timer [OF Suc.prems(1) fire])
    have step: "fire_due t (Suc f) ns = fire_due t f ?ns1" using fire by simp
    show ?thesis
    proof (cases "timer_action a")
      case (Slide_out i)
      have "timers ?ns1 = A' @ (B @ [\<lparr>due = t + 300, timer_action = Remove_note i\<rparr>])" using Slide_out by simp
      then show ?thesis using Suc.IH [OF ok1] Suc.prems(3,4,5) Cons step by simp
    next
      case (Remove_note i)
      have "timers ?ns1 = A' @ B" using Remove_note by simp
      then show ?thesis using Suc.IH [OF ok1] Suc.prems(3,4,5) Cons step by simp
    qed
  qed
qed

lemma fire_due_remove_phase:
  assumes "toasts_ok ns" "list_all (\<lambda>x. due x \<le> t \<and> (\<exists>i. timer_action x = Remove_note i)) (timers ns)"
    "length (timers ns) \<le> f"
  shows "timers (fire_due t f ns) = [] \<and> toasts_ok (fire_due t f ns)"
  using assms
proof (induction f arbitrary: ns)
  case 0
  then show ?case by simp
next
  case (Suc f)
  show ?case
  proof (cases "timers ns")
    case Nil
    then show ?thesis using Suc.prems(1) by (simp add: fire_timer_0)
  next
    case (Cons a rest)
    then obtain i where i: "timer_action a = Remove_note i" "due a \<le> t" using Suc.prems(2) by auto
    let ?ns1 = "run_timer t (timer_action a) (ns\<lparr>timers := rest\<rparr>)"
    have fire: "fire_timer t 0 ns = Some ?ns1" using Cons i by (simp add: fire_timer_0)
    have "timers ?ns1 = rest" using i by simp
    then show ?thesis
      using Suc.IH [OF toasts_ok_fire_timer [OF Suc.prems(1) fire]] Suc.prems(2,3) Cons fire by simp
  qed
qed

lemma length_timers_fire_timer:
  assumes "fire_timer now k ns = Some ns'"
  shows "length (timers ns') \<le> length (timers ns)"
proof -
  have k: "k < length (timers ns)"
    and ns': "ns' = run_timer now (timer_action (timers ns ! k)) (ns\<lparr>timers := remove_at k (timers ns)\<rparr>)"
    using assms by (simp_all add: fire_timer_def split: if_splits)
  have "length (remove_at k (timers ns)) = length (timers ns) - 1" using k by (simp add: remove_at_def)
  then show ?thesis unfolding ns' using k by (cases "timer_action (timers ns ! k)") simp_all
qed

lemma length_timers_fire_due: "length (timers (fire_due t f ns)) \<le> length (timers ns)"
proof (induction f arbitrary: ns)
  case 0
  then show ?case by simp
next
  case (Suc f)
  then show ?case
    by (cases "fire_timer t 0 ns") (auto intro: le_trans length_timers_fire_timer)
qed

text \<open>
  C24. Every toast goes away: from a well-formed toast state whose pending timers are all
  due by time \<open>t\<close>, running the due timers at \<open>t\<close> (every slide-out starts its
  removal timer) and again at \<open>t + 300\<close> leaves no toast on screen and no timer pending.
\<close>

theorem toasts_drain:
  assumes ok: "toasts_ok ns" and due: "list_all (\<lambda>x. due x \<le> t) (timers ns)"
  shows "shown (fire_due (t + 300) (length (timers ns)) (fire_due t (length (timers ns)) ns)) = [] \<and>
         timers (fire_due (t + 300) (length (timers ns)) (fire_due t (length (timers ns)) ns)) = []"
proof -
  let ?ns1 = "fire_due t (length (timers ns)) ns"
  have ph1: "toasts_ok ?ns1 \<and> list_all (\<lambda>x. due x \<le> t + 300 \<and> (\<exists>i. timer_action x = Remove_note i)) (timers ?ns1)"
    by (rule fire_due_slide_phase [OF ok _ due, of "[]"]) simp_all
  have ph2: "timers (fire_due (t + 300) (length (timers ns)) ?ns1) = [] \<and>
             toasts_ok (fire_due (t + 300) (length (timers ns)) ?ns1)"
    using ph1 length_timers_fire_due [of t "length (timers ns)" ns] by (intro fire_due_remove_phase) simp_all
  then show ?thesis using toasts_ok_no_timers by blast
qed

text \<open>
  C25. No toast disappears before its slide-out animation has started: firing any pending
  timer keeps every toast on screen that is not sliding out yet.
\<close>

theorem fire_timer_keeps_unslid:
  assumes ok: "toasts_ok ns" and fire: "fire_timer now k ns = Some ns'"
    and n: "n \<in> set (shown ns)" "\<not> sliding_out n"
  shows "note_id n \<in> note_id ` set (shown ns')"
proof -
  define x where "x = timers ns ! k"
  have k: "k < length (timers ns)"
    and ns': "ns' = run_timer now (timer_action x) (ns\<lparr>timers := remove_at k (timers ns)\<rparr>)"
    using fire by (simp_all add: fire_timer_def x_def split: if_splits)
  have x: "x \<in> set (timers ns)" using k unfolding x_def by (rule nth_mem)
  show ?thesis
  proof (cases "timer_action x")
    case (Slide_out i)
    define f :: "notification \<Rightarrow> notification" where "f = (\<lambda>m. if note_id m = i then m\<lparr>sliding_out := True\<rparr> else m)"
    have "shown ns' = map f (shown ns)" unfolding ns' Slide_out f_def by simp
    then have "f n \<in> set (shown ns')" using n(1) by simp
    moreover have "note_id (f n) = note_id n" unfolding f_def by simp
    ultimately show ?thesis by (metis image_eqI)
  next
    case (Remove_note i)
    have "i \<noteq> note_id n"
    proof
      assume i: "i = note_id n"
      have "timer_action x = Slide_out (note_id n)"
        using toasts_okD(5) [OF ok n(1) x] n(2) Remove_note i by simp
      then show False using Remove_note by simp
    qed
    moreover have "shown ns' = filter (\<lambda>m. note_id m \<noteq> i) (shown ns)" unfolding ns' Remove_note by simp
    ultimately have "n \<in> set (shown ns')" using n(1) by simp
    then show ?thesis by simp
  qed
qed

section \<open>Witnesses\<close>

lemma toasts_drain_witness:
  "shown (fire_due 4800 2 (fire_due 4500 2 demo_toasts)) = []"
proof -
  have ok: "toasts_ok demo_toasts"
    unfolding demo_toasts_def by (intro toasts_ok_show_notification toasts_ok_no_toasts)
  have "list_all (\<lambda>x. due x \<le> 4500) (timers demo_toasts)"
    by (simp add: demo_toasts_def show_notification_def no_toasts_def)
  moreover have "length (timers demo_toasts) = 2"
    by (simp add: demo_toasts_def show_notification_def no_toasts_def)
  ultimately show ?thesis using toasts_drain [OF ok, of 4500] by simp
qed

lemma fire_timer_keeps_unslid_witness:
  "note_id (shown (the (fire_timer 4000 0 demo_toasts)) ! 1) \<in>
     note_id ` set (shown (the (fire_timer 4300 1 (the (fire_timer 4000 0 demo_toasts)))))"
proof -
  let ?ns1 = "the (fire_timer 4000 0 demo_toasts)"
  have ok0: "toasts_ok demo_toasts"
    unfolding demo_toasts_def by (intro toasts_ok_show_notification toasts_ok_no_toasts)
  have f1: "fire_timer 4000 0 demo_toasts = Some ?ns1"
    by (simp add: demo_toasts_def show_notification_def no_toasts_def fire_timer_def)
  have f2: "fire_timer 4300 1 ?ns1 = Some (the (fire_timer 4300 1 ?ns1))"
    by (simp add: demo_toasts_def show_notification_def no_toasts_def fire_timer_def remove_at_def)
  have n: "shown ?ns1 ! 1 \<in> set (shown ?ns1)" "\<not> sliding_out (shown ?ns1 ! 1)"
    by (simp_all add: demo_toasts_def show_notification_def no_toasts_def fire_timer_def)
  show ?thesis using fire_timer_keeps_unslid [OF toasts_ok_fire_timer [OF ok0 f1] f2 n] .
qed

end
