(* ===== verification/Tilt.thy ===== *)
theory Tilt
  imports Prelude "HOL-Library.Multiset"
begin

text \<open>
  \<open>enableTiltEffects\<close> (\<open>src/script.js\<close>). Every call registers, on each element of
  the tilt selector, a fresh closure (targets, current angles, \<open>rafId\<close>) with three
  listeners; \<open>el.onmousemove = null\<close> does not remove listeners added by
  \<open>addEventListener\<close>, so an element that survives several calls carries one such
  binding per call. One element is modelled: its bindings in registration order, the
  animation-frame callbacks requested for it (first requested, first run; each names the
  binding whose \<open>animate\<close> it is), and the angles last written to \<open>el.style.transform\<close>.
  Angles are real numbers: the binary64 rounding of the updates is not modelled.
\<close>

record binding =
  target_rx :: real
  target_ry :: real
  current_rx :: real
  current_ry :: real
  raf_id :: bool \<comment> \<open>\<open>rafId !== null\<close>; \<open>requestAnimationFrame\<close> never returns 0\<close>

record tilt_el =
  bindings :: "binding list"
  raf_queue :: "nat list"
  transform :: "(real \<times> real) option" \<comment> \<open>\<open>rotateX(\<dots>deg) rotateY(\<dots>deg)\<close>\<close>

record rect =
  rect_left :: real
  rect_top :: real
  rect_width :: real
  rect_height :: real

definition max_tilt_deg :: real where
  "max_tilt_deg = 10"

definition inertia :: real where
  "inertia = 0.12"

definition fresh_binding :: binding where
  "fresh_binding = \<lparr>target_rx = 0, target_ry = 0, current_rx = 0, current_ry = 0, raf_id = False\<rparr>"

definition tilt_none :: tilt_el where
  "tilt_none = \<lparr>bindings = [], raf_queue = [], transform = None\<rparr>"

text \<open>One call of \<open>enableTiltEffects\<close> on the element.\<close>

definition enable_tilt :: "tilt_el \<Rightarrow> tilt_el" where
  "enable_tilt el = el\<lparr>bindings := bindings el @ [fresh_binding]\<rparr>"

text \<open>\<open>if (!rafId) rafId = requestAnimationFrame(animate)\<close> for binding \<open>i\<close>.\<close>

definition request_frame :: "nat \<Rightarrow> binding \<Rightarrow> tilt_el \<Rightarrow> tilt_el" where
  "request_frame i b el =
     (if raf_id b then el\<lparr>bindings := (bindings el)[i := b]\<rparr>
      else el\<lparr>bindings := (bindings el)[i := b\<lparr>raf_id := True\<rparr>], raf_queue := raf_queue el @ [i]\<rparr>)"

text \<open>The targets \<open>applyTilt\<close> computes from the pointer and the bounding rectangle.\<close>

definition tilt_targets :: "rect \<Rightarrow> real \<Rightarrow> real \<Rightarrow> real \<times> real" where
  "tilt_targets rc cx cy =
     (let rel_x = (cx - rect_left rc) / rect_width rc;
          rel_y = (cy - rect_top rc) / rect_height rc
      in ((0.5 - rel_y) * max_tilt_deg, (rel_x - 0.5) * max_tilt_deg))"

definition apply_tilt :: "rect \<Rightarrow> real \<Rightarrow> real \<Rightarrow> nat \<Rightarrow> tilt_el \<Rightarrow> tilt_el" where
  "apply_tilt rc cx cy i el =
     (let (tx, ty) = tilt_targets rc cx cy
      in request_frame i ((bindings el ! i)\<lparr>target_rx := tx, target_ry := ty\<rparr>) el)"

definition reset_tilt :: "nat \<Rightarrow> tilt_el \<Rightarrow> tilt_el" where
  "reset_tilt i el = request_frame i ((bindings el ! i)\<lparr>target_rx := 0, target_ry := 0\<rparr>) el"

text \<open>A pointer event runs the listener of every binding, in registration order.\<close>

definition mouse_move :: "rect \<Rightarrow> real \<Rightarrow> real \<Rightarrow> tilt_el \<Rightarrow> tilt_el" where
  "mouse_move rc cx cy el = fold (apply_tilt rc cx cy) [0..<length (bindings el)] el"

definition mouse_leave :: "tilt_el \<Rightarrow> tilt_el" where
  "mouse_leave el = fold reset_tilt [0..<length (bindings el)] el"

text \<open>\<open>animate\<close>: the two inertia updates, the style write, and the next frame or none.\<close>

definition advance :: "binding \<Rightarrow> binding" where
  "advance b =
     b\<lparr>current_rx := current_rx b + (target_rx b - current_rx b) * inertia,
       current_ry := current_ry b + (target_ry b - current_ry b) * inertia\<rparr>"

definition animate :: "nat \<Rightarrow> tilt_el \<Rightarrow> tilt_el" where
  "animate i el =
     (let b = advance (bindings el ! i);
          el1 = el\<lparr>transform := Some (current_rx b, current_ry b)\<rparr>
      in if 0.01 < \<bar>current_rx b - target_rx b\<bar> \<or> 0.01 < \<bar>current_ry b - target_ry b\<bar>
         then el1\<lparr>bindings := (bindings el)[i := b\<lparr>raf_id := True\<rparr>], raf_queue := raf_queue el @ [i]\<rparr>
         else el1\<lparr>bindings := (bindings el)[i := b\<lparr>raf_id := False\<rparr>]\<rparr>)"

text \<open>The browser running the oldest requested callback; \<open>None\<close> when none is requested.\<close>

definition frame :: "tilt_el \<Rightarrow> tilt_el option" where
  "frame el = (case raf_queue el of [] \<Rightarrow> None | i # q \<Rightarrow> Some (animate i (el\<lparr>raf_queue := q\<rparr>)))"

datatype tilt_event =
    Enable_tilt
  | Mouse_move rect real real
  | Mouse_enter rect real real
  | Mouse_leave
  | Animation_frame

fun tilt_step :: "tilt_event \<Rightarrow> tilt_el \<Rightarrow> tilt_el" where
  "tilt_step Enable_tilt el = enable_tilt el"
| "tilt_step (Mouse_move rc cx cy) el = mouse_move rc cx cy el"
| "tilt_step (Mouse_enter rc cx cy) el = mouse_move rc cx cy el"
| "tilt_step Mouse_leave el = mouse_leave el"
| "tilt_step Animation_frame el = (case frame el of None \<Rightarrow> el | Some el' \<Rightarrow> el')"

text \<open>
  The browser delivers pointer events to an element only while the pointer is over it, so
  inside its (non-empty) bounding rectangle.
\<close>

definition pointer_inside :: "rect \<Rightarrow> real \<Rightarrow> real \<Rightarrow> bool" where
  "pointer_inside rc cx cy \<longleftrightarrow>
     0 < rect_width rc \<and> 0 < rect_height rc \<and>
     rect_left rc \<le> cx \<and> cx \<le> rect_left rc + rect_width rc \<and>
     rect_top rc \<le> cy \<and> cy \<le> rect_top rc + rect_height rc"

fun event_ok :: "tilt_event \<Rightarrow> bool" where
  "event_ok (Mouse_move rc cx cy) = pointer_inside rc cx cy"
| "event_ok (Mouse_enter rc cx cy) = pointer_inside rc cx cy"
| "event_ok _ = True"

inductive tilt_reachable :: "tilt_el \<Rightarrow> bool" where
  init: "tilt_reachable tilt_none"
| step: "tilt_reachable el \<Longrightarrow> event_ok e \<Longrightarrow> tilt_reachable (tilt_step e el)"

text \<open>The animation loop once the pointer rests: frames run until none is requested.\<close>

partial_function (option) settle :: "tilt_el \<Rightarrow> tilt_el option" where
  "settle el = (case frame el of None \<Rightarrow> Some el | Some el' \<Rightarrow> settle el')"

text \<open>
  Well-formedness: the requested callbacks are exactly one per binding whose \<open>rafId\<close>
  is set. As multisets, so that no binding has two callbacks pending.
\<close>

definition active_bindings :: "tilt_el \<Rightarrow> nat list" where
  "active_bindings el = filter (\<lambda>i. raf_id (bindings el ! i)) [0..<length (bindings el)]"

definition tilt_ok :: "tilt_el \<Rightarrow> bool" where
  "tilt_ok el \<longleftrightarrow> mset (raf_queue el) = mset (active_bindings el)"

definition gap :: "binding \<Rightarrow> real" where
  "gap b = max \<bar>current_rx b - target_rx b\<bar> \<bar>current_ry b - target_ry b\<bar>"

text \<open>Every angle of the element within \<open>maxTiltDeg / 2\<close> degrees.\<close>

definition angle_ok :: "real \<Rightarrow> bool" where
  "angle_ok x \<longleftrightarrow> \<bar>x\<bar> \<le> 5"

definition tilt_bounded :: "tilt_el \<Rightarrow> bool" where
  "tilt_bounded el \<longleftrightarrow>
     list_all (\<lambda>b. angle_ok (target_rx b) \<and> angle_ok (target_ry b) \<and> angle_ok (current_rx b) \<and> angle_ok (current_ry b))
       (bindings el) \<and>
     (case transform el of None \<Rightarrow> True | Some (x, y) \<Rightarrow> angle_ok x \<and> angle_ok y)"

text \<open>A binding without a requested frame is at rest: within 0.01 degree of its targets.\<close>

definition at_rest_ok :: "tilt_el \<Rightarrow> bool" where
  "at_rest_ok el \<longleftrightarrow> list_all (\<lambda>b. raf_id b \<or> gap b \<le> 1/100) (bindings el)"

text \<open>
  A nav button at start-up: \<open>renderPosts\<close> and \<open>init\<close> both call
  \<open>enableTiltEffects\<close>, then the pointer moves over the button.
\<close>

definition demo_rect :: rect where
  "demo_rect = \<lparr>rect_left = 100, rect_top = 200, rect_width = 400, rect_height = 300\<rparr>"

definition demo_tilt :: tilt_el where
  "demo_tilt = tilt_step (Mouse_move demo_rect 400 275) (tilt_step Enable_tilt (tilt_step Enable_tilt tilt_none))"

section \<open>Lemmas\<close>

lemma count_active:
  "count (mset (active_bindings el)) j = (if j < length (bindings el) \<and> raf_id (bindings el ! j) then 1 else 0)"
proof -
  have "distinct (active_bindings el)" by (simp add: active_bindings_def)
  then show ?thesis unfolding distinct_count_atmost_1 by (auto simp: active_bindings_def)
qed

lemma tilt_ok_count:
  "tilt_ok el \<longleftrightarrow>
     (\<forall>j. count (mset (raf_queue el)) j = (if j < length (bindings el) \<and> raf_id (bindings el ! j) then 1 else 0))"
  unfolding tilt_ok_def multiset_eq_iff count_active ..

lemma tilt_ok_set_binding:
  assumes ok: "tilt_ok el" and i: "i < length (bindings el)"
    and q: "\<And>j. count (mset q) j =
              count (mset (raf_queue el)) j - (if j = i \<and> raf_id (bindings el ! i) then 1 else 0)
              + (if j = i \<and> raf_id b then 1 else 0)"
  shows "tilt_ok (el\<lparr>bindings := (bindings el)[i := b], raf_queue := q\<rparr>)"
  unfolding tilt_ok_count
proof
  fix j
  show "count (mset (raf_queue (el\<lparr>bindings := (bindings el)[i := b], raf_queue := q\<rparr>))) j =
        (if j < length (bindings (el\<lparr>bindings := (bindings el)[i := b], raf_queue := q\<rparr>)) \<and>
            raf_id (bindings (el\<lparr>bindings := (bindings el)[i := b], raf_queue := q\<rparr>) ! j) then 1 else 0)"
    using ok i q [of j] unfolding tilt_ok_count by (cases "j = i") auto
qed

lemma length_request_frame [simp]: "length (bindings (request_frame i b el)) = length (bindings el)"
  by (simp add: request_frame_def)

lemma tilt_ok_request_frame:
  assumes "tilt_ok el" "i < length (bindings el)" "raf_id b \<longleftrightarrow> raf_id (bindings el ! i)"
  shows "tilt_ok (request_frame i b el)"
proof (cases "raf_id b")
  case True
  have "count (mset (raf_queue el)) i = 1" using assms True unfolding tilt_ok_count by simp
  then have "tilt_ok (el\<lparr>bindings := (bindings el)[i := b], raf_queue := raf_queue el\<rparr>)"
    using assms True by (intro tilt_ok_set_binding) auto
  then show ?thesis using True by (simp add: request_frame_def)
next
  case False
  have "tilt_ok (el\<lparr>bindings := (bindings el)[i := b\<lparr>raf_id := True\<rparr>], raf_queue := raf_queue el @ [i]\<rparr>)"
    using assms False by (intro tilt_ok_set_binding) auto
  then show ?thesis using False by (simp add: request_frame_def)
qed

lemma tilt_ok_apply_tilt:
  "tilt_ok el \<Longrightarrow> i < length (bindings el) \<Longrightarrow> tilt_ok (apply_tilt rc cx cy i el)"
  unfolding apply_tilt_def by (simp add: tilt_ok_request_frame split: prod.split)

lemma tilt_ok_reset_tilt:
  "tilt_ok el \<Longrightarrow> i < length (bindings el) \<Longrightarrow> tilt_ok (reset_tilt i el)"
  unfolding reset_tilt_def by (simp add: tilt_ok_request_frame)

lemma length_apply_tilt [simp]: "length (bindings (apply_tilt rc cx cy i el)) = length (bindings el)"
  by (simp add: apply_tilt_def split: prod.split)

lemma length_reset_tilt [simp]: "length (bindings (reset_tilt i el)) = length (bindings el)"
  by (simp add: reset_tilt_def)

lemma fold_keeps:
  assumes "P el" "\<forall>i \<in> set xs. i < length (bindings el)"
    and "\<And>i el. P el \<Longrightarrow> i < length (bindings el) \<Longrightarrow> P (f i el)"
    and "\<And>i el. length (bindings (f i el)) = length (bindings el)"
  shows "P (fold f xs el)"
  using assms(1,2)
proof (induction xs arbitrary: el)
  case Nil
  then show ?case by simp
next
  case (Cons x xs)
  then show ?case using assms(3,4) by simp
qed

lemma tilt_ok_enable_tilt: "tilt_ok el \<Longrightarrow> tilt_ok (enable_tilt el)"
  unfolding tilt_ok_count by (auto simp: enable_tilt_def nth_append fresh_binding_def)

lemma tilt_ok_animate_popped:
  assumes ok: "tilt_ok el" and q: "raf_queue el = i # rest"
  shows "tilt_ok (animate i (el\<lparr>raf_queue := rest\<rparr>))"
proof -
  have c: "count (mset (raf_queue el)) i = (if i < length (bindings el) \<and> raf_id (bindings el ! i) then 1 else 0)"
    using ok unfolding tilt_ok_count by blast
  then have i: "i < length (bindings el)" "raf_id (bindings el ! i)" using q by (auto split: if_splits)
  let ?b = "advance (bindings el ! i)"
  have ok1: "tilt_ok (el\<lparr>bindings := (bindings el)[i := ?b\<lparr>raf_id := c\<rparr>],
                         raf_queue := (if c then rest @ [i] else rest)\<rparr>)" for c
    using ok i q by (intro tilt_ok_set_binding) auto
  show ?thesis
    using ok1 [of True] ok1 [of False] unfolding animate_def Let_def tilt_ok_def active_bindings_def by simp
qed

lemma tilt_ok_frame: "tilt_ok el \<Longrightarrow> frame el = Some el' \<Longrightarrow> tilt_ok el'"
  by (auto simp: frame_def tilt_ok_animate_popped split: list.splits)

lemma tilt_ok_mouse_move: "tilt_ok el \<Longrightarrow> tilt_ok (mouse_move rc cx cy el)"
  unfolding mouse_move_def by (rule fold_keeps [where P = tilt_ok]) (simp_all add: tilt_ok_apply_tilt)

lemma tilt_ok_mouse_leave: "tilt_ok el \<Longrightarrow> tilt_ok (mouse_leave el)"
  unfolding mouse_leave_def by (rule fold_keeps [where P = tilt_ok]) (simp_all add: tilt_ok_reset_tilt)

lemma tilt_ok_step: "tilt_ok el \<Longrightarrow> tilt_ok (tilt_step e el)"
  by (cases e) (auto simp: tilt_ok_enable_tilt tilt_ok_mouse_move tilt_ok_mouse_leave tilt_ok_frame split: option.split)

lemma reachable_tilt_ok: "tilt_reachable el \<Longrightarrow> tilt_ok el"
proof (induction rule: tilt_reachable.induct)
  case init
  then show ?case by (simp add: tilt_ok_def tilt_none_def active_bindings_def)
next
  case (step el e)
  then show ?case by (simp add: tilt_ok_step)
qed

subsection \<open>Bounds\<close>

lemma tilt_targets_bound:
  assumes "pointer_inside rc cx cy"
  shows "angle_ok (fst (tilt_targets rc cx cy)) \<and> angle_ok (snd (tilt_targets rc cx cy))"
proof -
  have rel: "0 \<le> (c - l) / w \<and> (c - l) / w \<le> 1" if "0 < w" "l \<le> c" "c \<le> l + w" for c l w :: real
    using that by (simp add: divide_le_eq)
  have x: "0 \<le> (cx - rect_left rc) / rect_width rc \<and> (cx - rect_left rc) / rect_width rc \<le> 1"
    and y: "0 \<le> (cy - rect_top rc) / rect_height rc \<and> (cy - rect_top rc) / rect_height rc \<le> 1"
    using assms rel unfolding pointer_inside_def by blast+
  have h: "0 \<le> r \<Longrightarrow> r \<le> 1 \<Longrightarrow> angle_ok ((0.5 - r) * max_tilt_deg) \<and> angle_ok ((r - 0.5) * max_tilt_deg)"
    for r :: real
    unfolding angle_ok_def max_tilt_deg_def by (simp add: abs_le_iff)
  show ?thesis
    using h [of "(cy - rect_top rc) / rect_height rc"] h [of "(cx - rect_left rc) / rect_width rc"] x y
    by (simp add: tilt_targets_def Let_def)
qed

lemma inertia_step_bound:
  assumes "angle_ok c" "angle_ok t"
  shows "angle_ok (c + (t - c) * inertia)"
proof -
  have "c + (t - c) * inertia = (22/25) * c + (3/25) * t" by (simp add: inertia_def field_simps)
  also have "\<bar>(22/25) * c + (3/25) * t\<bar> \<le> \<bar>(22/25) * c\<bar> + \<bar>(3/25) * t\<bar>" by (rule abs_triangle_ineq)
  also have "\<dots> = (22/25) * \<bar>c\<bar> + (3/25) * \<bar>t\<bar>" by (simp add: abs_mult)
  also have "\<dots> \<le> 5" using assms unfolding angle_ok_def by linarith
  finally show ?thesis unfolding angle_ok_def .
qed

lemma advance_bound:
  "angle_ok (target_rx b) \<Longrightarrow> angle_ok (target_ry b) \<Longrightarrow> angle_ok (current_rx b) \<Longrightarrow> angle_ok (current_ry b) \<Longrightarrow>
   angle_ok (current_rx (advance b)) \<and> angle_ok (current_ry (advance b))"
  by (simp add: advance_def inertia_step_bound)

lemma binding_ok_nth:
  "list_all P bs \<Longrightarrow> i < length bs \<Longrightarrow> P b \<Longrightarrow> list_all P (bs[i := b])"
  by (simp add: list_all_length nth_list_update)

lemma tilt_bounded_request_frame:
  assumes "tilt_bounded el" "i < length (bindings el)"
    "angle_ok (target_rx b)" "angle_ok (target_ry b)" "angle_ok (current_rx b)" "angle_ok (current_ry b)"
  shows "tilt_bounded (request_frame i b el)"
  using assms unfolding tilt_bounded_def request_frame_def by (simp add: binding_ok_nth)

lemma tilt_bounded_apply_tilt:
  assumes "tilt_bounded el" "i < length (bindings el)" "pointer_inside rc cx cy"
  shows "tilt_bounded (apply_tilt rc cx cy i el)"
proof -
  have b: "angle_ok (current_rx (bindings el ! i)) \<and> angle_ok (current_ry (bindings el ! i))"
    using assms(1,2) unfolding tilt_bounded_def by (simp add: list_all_length)
  obtain tx ty where tt: "tilt_targets rc cx cy = (tx, ty)" by (cases "tilt_targets rc cx cy")
  then have "angle_ok tx" "angle_ok ty" using tilt_targets_bound [OF assms(3)] by simp_all
  then show ?thesis
    using b unfolding apply_tilt_def tt by (simp add: tilt_bounded_request_frame assms(1,2))
qed

lemma tilt_bounded_reset_tilt:
  assumes "tilt_bounded el" "i < length (bindings el)"
  shows "tilt_bounded (reset_tilt i el)"
proof -
  have b: "angle_ok (current_rx (bindings el ! i)) \<and> angle_ok (current_ry (bindings el ! i))"
    using assms unfolding tilt_bounded_def by (simp add: list_all_length)
  show ?thesis
    using b unfolding reset_tilt_def by (simp add: tilt_bounded_request_frame assms angle_ok_def)
qed

lemma tilt_bounded_animate:
  assumes "tilt_bounded el" "i < length (bindings el)"
  shows "tilt_bounded (animate i el)"
proof -
  let ?b = "bindings el ! i"
  have b: "angle_ok (target_rx ?b)" "angle_ok (target_ry ?b)" "angle_ok (current_rx ?b)" "angle_ok (current_ry ?b)"
    using assms unfolding tilt_bounded_def by (simp_all add: list_all_length)
  have t: "target_rx (advance ?b) = target_rx ?b" "target_ry (advance ?b) = target_ry ?b"
    by (simp_all add: advance_def)
  note a = advance_bound [OF b]
  show ?thesis
    using assms a b t unfolding animate_def Let_def tilt_bounded_def by (simp add: binding_ok_nth)
qed

lemma tilt_bounded_frame: "tilt_bounded el \<Longrightarrow> tilt_ok el \<Longrightarrow> frame el = Some el' \<Longrightarrow> tilt_bounded el'"
proof -
  assume bd: "tilt_bounded el" and ok: "tilt_ok el" and f: "frame el = Some el'"
  then obtain i rest where q: "raf_queue el = i # rest" and el': "el' = animate i (el\<lparr>raf_queue := rest\<rparr>)"
    by (auto simp: frame_def split: list.splits)
  have "count (mset (raf_queue el)) i = (if i < length (bindings el) \<and> raf_id (bindings el ! i) then 1 else 0)"
    using ok unfolding tilt_ok_count by blast
  then have "i < length (bindings el)" using q by (auto split: if_splits)
  moreover have "tilt_bounded (el\<lparr>raf_queue := rest\<rparr>)" using bd by (simp add: tilt_bounded_def)
  ultimately show ?thesis unfolding el' by (intro tilt_bounded_animate) simp_all
qed

lemma tilt_bounded_mouse_move:
  "tilt_bounded el \<Longrightarrow> pointer_inside rc cx cy \<Longrightarrow> tilt_bounded (mouse_move rc cx cy el)"
  unfolding mouse_move_def by (rule fold_keeps [where P = tilt_bounded]) (simp_all add: tilt_bounded_apply_tilt)

lemma tilt_bounded_mouse_leave: "tilt_bounded el \<Longrightarrow> tilt_bounded (mouse_leave el)"
  unfolding mouse_leave_def by (rule fold_keeps [where P = tilt_bounded]) (simp_all add: tilt_bounded_reset_tilt)

lemma tilt_bounded_step:
  "tilt_bounded el \<Longrightarrow> tilt_ok el \<Longrightarrow> event_ok e \<Longrightarrow> tilt_bounded (tilt_step e el)"
  by (cases e) (auto simp: tilt_bounded_mouse_move tilt_bounded_mouse_leave tilt_bounded_frame split: option.split,
      simp add: tilt_bounded_def enable_tilt_def fresh_binding_def angle_ok_def)

subsection \<open>Rest\<close>

lemma advance_fields [simp]:
  "target_rx (advance b) = target_rx b" "target_ry (advance b) = target_ry b" "raf_id (advance b) = raf_id b"
  by (simp_all add: advance_def)

lemma at_rest_ok_request_frame:
  "at_rest_ok el \<Longrightarrow> i < length (bindings el) \<Longrightarrow> at_rest_ok (request_frame i b el)"
  unfolding at_rest_ok_def request_frame_def by (auto intro: binding_ok_nth)

lemma at_rest_ok_animate:
  assumes "at_rest_ok el" "i < length (bindings el)"
  shows "at_rest_ok (animate i el)"
proof -
  have stop: "\<not> (0.01 < \<bar>current_rx (advance b) - target_rx (advance b)\<bar> \<or>
                 0.01 < \<bar>current_ry (advance b) - target_ry (advance b)\<bar>) \<Longrightarrow> gap (advance b) \<le> 1/100" for b
    by (simp add: gap_def max_def)
  show ?thesis
    using assms stop [of "bindings el ! i"] unfolding at_rest_ok_def animate_def Let_def
    by (auto intro: binding_ok_nth simp: gap_def)
qed

lemma at_rest_ok_frame: "at_rest_ok el \<Longrightarrow> tilt_ok el \<Longrightarrow> frame el = Some el' \<Longrightarrow> at_rest_ok el'"
proof -
  assume r: "at_rest_ok el" and ok: "tilt_ok el" and f: "frame el = Some el'"
  then obtain i rest where q: "raf_queue el = i # rest" and el': "el' = animate i (el\<lparr>raf_queue := rest\<rparr>)"
    by (auto simp: frame_def split: list.splits)
  have "count (mset (raf_queue el)) i = (if i < length (bindings el) \<and> raf_id (bindings el ! i) then 1 else 0)"
    using ok unfolding tilt_ok_count by blast
  then have "i < length (bindings el)" using q by (auto split: if_splits)
  moreover have "at_rest_ok (el\<lparr>raf_queue := rest\<rparr>)" using r by (simp add: at_rest_ok_def)
  ultimately show ?thesis unfolding el' by (intro at_rest_ok_animate) simp_all
qed

lemma at_rest_ok_mouse_move: "at_rest_ok el \<Longrightarrow> at_rest_ok (mouse_move rc cx cy el)"
  unfolding mouse_move_def
  by (rule fold_keeps [where P = at_rest_ok]) (simp_all add: apply_tilt_def at_rest_ok_request_frame split: prod.split)

lemma at_rest_ok_mouse_leave: "at_rest_ok el \<Longrightarrow> at_rest_ok (mouse_leave el)"
  unfolding mouse_leave_def
  by (rule fold_keeps [where P = at_rest_ok]) (simp_all add: reset_tilt_def at_rest_ok_request_frame)

lemma at_rest_ok_step: "at_rest_ok el \<Longrightarrow> tilt_ok el \<Longrightarrow> at_rest_ok (tilt_step e el)"
  by (cases e) (auto simp: at_rest_ok_mouse_move at_rest_ok_mouse_leave at_rest_ok_frame split: option.split,
      simp add: at_rest_ok_def enable_tilt_def fresh_binding_def gap_def)

subsection \<open>Termination of the animation loop\<close>

lemma gap_advance: "gap (advance b) = 22/25 * gap b"
proof -
  have rx: "current_rx (advance b) - target_rx b = 22/25 * (current_rx b - target_rx b)"
    and ry: "current_ry (advance b) - target_ry b = 22/25 * (current_ry b - target_ry b)"
    by (simp_all add: advance_def inertia_def field_simps)
  show ?thesis unfolding gap_def advance_fields rx ry abs_mult by (simp add: max_def)
qed

lemma gap_nonneg: "0 \<le> gap b"
  by (simp add: gap_def le_max_iff_disj)

lemma gap_eventually_small: "\<exists>n. gap b * (22/25) ^ Suc n \<le> 1/100"
proof (cases "gap b = 0")
  case True
  then show ?thesis by simp
next
  case False
  then have g: "0 < gap b" using gap_nonneg [of b] by simp
  obtain n where "(22/25::real) ^ n < (1/100) / gap b"
    using real_arch_pow_inv [of "(1/100) / gap b" "22/25"] g by auto
  then have lt: "gap b * (22/25) ^ n < 1/100" using g by (simp add: field_simps)
  have "gap b * (22/25) ^ Suc n \<le> gap b * (22/25) ^ n"
    using g by (simp add: mult_left_le)
  then show ?thesis using lt by (metis order.trans less_imp_le)
qed

lemma queue_head:
  assumes "tilt_ok el" "raf_queue el = i # rest"
  shows "i < length (bindings el)" "raf_id (bindings el ! i)" "i \<notin> set rest"
proof -
  have c: "count (mset (raf_queue el)) i = (if i < length (bindings el) \<and> raf_id (bindings el ! i) then 1 else 0)"
    using assms(1) unfolding tilt_ok_count by blast
  then show "i < length (bindings el)" "raf_id (bindings el ! i)" using assms(2) by (auto split: if_splits)
  show "i \<notin> set rest" using c assms(2) by (auto split: if_splits)
qed

lemma settle_no_frame: "frame el = None \<Longrightarrow> settle el = Some el"
  by (subst settle.simps) simp

lemma settle_frame: "frame el = Some el' \<Longrightarrow> settle el = settle el'"
  by (subst settle.simps) simp

text \<open>
  Each requested binding \<open>i\<close> has a budget \<open>N i\<close> of frames; a frame that requests
  again spends one unit of it, so the sum of the budgets bounds the number of frames.
\<close>

lemma settle_ends:
  assumes "P el" "tilt_ok el" and P: "\<And>e e'. P e \<Longrightarrow> tilt_ok e \<Longrightarrow> frame e = Some e' \<Longrightarrow> P e'"
    and "(\<Sum>i\<leftarrow>raf_queue el. Suc (N i)) \<le> m"
    and "list_all (\<lambda>i. gap (bindings el ! i) * (22/25) ^ Suc (N i) \<le> 1/100) (raf_queue el)"
  shows "\<exists>el'. settle el = Some el' \<and> raf_queue el' = [] \<and> tilt_ok el' \<and> P el'"
  using assms(1,2,4,5)
proof (induction m arbitrary: el N)
  case 0
  then have "raf_queue el = []" by (cases "raf_queue el") simp_all
  then show ?case using 0 settle_no_frame [of el] by (simp add: frame_def)
next
  case (Suc m)
  show ?case
  proof (cases "raf_queue el")
    case Nil
    then show ?thesis using Suc.prems settle_no_frame [of el] by (simp add: frame_def)
  next
    case (Cons i rest)
    let ?b = "bindings el ! i" and ?el1 = "animate i (el\<lparr>raf_queue := rest\<rparr>)"
    note h = queue_head [OF Suc.prems(2) Cons]
    have f: "frame el = Some ?el1" by (simp add: frame_def Cons)
    have ok1: "tilt_ok ?el1" by (rule tilt_ok_frame [OF Suc.prems(2) f])
    have P1: "P ?el1" by (rule P [OF Suc.prems(1,2) f])
    have others: "bindings ?el1 ! j = bindings el ! j" if "j \<in> set rest" for j
    proof -
      have "i \<noteq> j" using that h(3) by auto
      then show ?thesis by (simp add: animate_def Let_def)
    qed
    have gi: "gap ?b * (22/25) ^ Suc (N i) \<le> 1/100" and grest: "list_all (\<lambda>j. gap (bindings el ! j) * (22/25) ^ Suc (N j) \<le> 1/100) rest"
      using Suc.prems(4) Cons by simp_all
    have srest: "Suc (N i) + (\<Sum>j\<leftarrow>rest. Suc (N j)) \<le> Suc m" using Suc.prems(3) Cons by simp
    have grest1: "list_all (\<lambda>j. gap (bindings ?el1 ! j) * (22/25) ^ Suc (N j) \<le> 1/100) rest"
      using grest others by (simp add: list_all_iff)
    show ?thesis
    proof (cases "1/100 < gap (advance ?b)")
      case True
      then have q1: "raf_queue ?el1 = rest @ [i]" and b1: "bindings ?el1 ! i = (advance ?b)\<lparr>raf_id := True\<rparr>"
        using h(1) by (simp_all add: animate_def Let_def gap_def less_max_iff_disj)
      have "N i \<noteq> 0"
      proof
        assume "N i = 0"
        then have "gap (advance ?b) \<le> 1/100" using gi by (simp add: gap_advance mult.commute)
        then show False using True by simp
      qed
      define N' where "N' = N(i := N i - 1)"
      have same: "map (\<lambda>j. Suc (N' j)) rest = map (\<lambda>j. Suc (N j)) rest"
        using h(3) by (auto simp: N'_def)
      have sum1: "(\<Sum>j\<leftarrow>raf_queue ?el1. Suc (N' j)) \<le> m"
        using srest \<open>N i \<noteq> 0\<close> unfolding q1 map_append sum_list_append same by (simp add: N'_def)
      have "gap (bindings ?el1 ! i) = gap (advance ?b)" unfolding b1 by (simp add: gap_def)
      also have "\<dots> = 22/25 * gap ?b" by (rule gap_advance)
      finally have "gap (bindings ?el1 ! i) * (22/25) ^ Suc (N' i) = gap ?b * (22/25) ^ Suc (N i)"
        using \<open>N i \<noteq> 0\<close> unfolding N'_def by (cases "N i") (simp_all add: ac_simps)
      then have gl1: "list_all (\<lambda>j. gap (bindings ?el1 ! j) * (22/25) ^ Suc (N' j) \<le> 1/100) (raf_queue ?el1)"
        using gi grest1 h(3) unfolding q1 by (simp add: list_all_iff N'_def)
      show ?thesis using Suc.IH [OF P1 ok1 sum1 gl1] settle_frame [OF f] by simp
    next
      case False
      then have q1: "raf_queue ?el1 = rest"
        by (simp add: animate_def Let_def gap_def less_max_iff_disj)
      have sum1: "(\<Sum>j\<leftarrow>raf_queue ?el1. Suc (N j)) \<le> m" using srest unfolding q1 by simp
      show ?thesis using Suc.IH [OF P1 ok1 sum1] grest1 settle_frame [OF f] unfolding q1 by simp
    qed
  qed
qed

lemma reachable_at_rest: "tilt_reachable el \<Longrightarrow> at_rest_ok el"
proof (induction rule: tilt_reachable.induct)
  case init
  then show ?case by (simp add: at_rest_ok_def tilt_none_def)
next
  case (step el e)
  then show ?case by (simp add: at_rest_ok_step reachable_tilt_ok)
qed

lemma targets_funpow [simp]:
  "target_rx ((advance ^^ n) b) = target_rx b" "target_ry ((advance ^^ n) b) = target_ry b"
  by (induction n) simp_all

lemma enable_tilt_funpow:
  "bindings ((enable_tilt ^^ k) tilt_none) = replicate k fresh_binding \<and> raf_queue ((enable_tilt ^^ k) tilt_none) = []"
  by (induction k) (simp_all add: enable_tilt_def tilt_none_def replicate_append_same)

lemma fold_apply_tilt_queue:
  assumes "distinct xs" "\<forall>i \<in> set xs. i < length (bindings el) \<and> \<not> raf_id (bindings el ! i)"
  shows "raf_queue (fold (apply_tilt rc cx cy) xs el) = raf_queue el @ xs"
  using assms
proof (induction xs arbitrary: el)
  case Nil
  then show ?case by simp
next
  case (Cons x xs)
  obtain tx ty where tt: "tilt_targets rc cx cy = (tx, ty)" by (cases "tilt_targets rc cx cy")
  let ?el1 = "apply_tilt rc cx cy x el"
  have x: "x < length (bindings el)" "\<not> raf_id (bindings el ! x)" using Cons.prems by simp_all
  have q1: "raf_queue ?el1 = raf_queue el @ [x]" using x unfolding apply_tilt_def tt by (simp add: request_frame_def)
  have b1: "bindings ?el1 ! i = bindings el ! i" if "i \<in> set xs" for i
  proof -
    have "x \<noteq> i" using that Cons.prems(1) by auto
    then show ?thesis using x unfolding apply_tilt_def tt by (simp add: request_frame_def)
  qed
  have "raf_queue (fold (apply_tilt rc cx cy) xs ?el1) = raf_queue ?el1 @ xs"
    using Cons.prems b1 by (intro Cons.IH) auto
  then show ?case using q1 by simp
qed

lemma demo_tilt_reachable: "tilt_reachable demo_tilt"
proof -
  have r0: "tilt_reachable tilt_none" by (rule tilt_reachable.init)
  have r2: "tilt_reachable (tilt_step Enable_tilt (tilt_step Enable_tilt tilt_none))"
    by (rule tilt_reachable.step [OF tilt_reachable.step [OF r0]]) simp_all
  show ?thesis unfolding demo_tilt_def
    by (rule tilt_reachable.step [OF r2]) (simp add: pointer_inside_def demo_rect_def)
qed

text \<open>
  C29. Each binding has at most one animation-frame callback pending, and it has one
  exactly when its \<open>rafId\<close> is set: the guard \<open>if (!rafId)\<close> never lets a second
  \<open>animate\<close> loop start for the same binding.
\<close>

theorem tilt_single_callback:
  assumes "tilt_reachable el"
  shows "count (mset (raf_queue el)) i \<le> 1 \<and>
         (i \<in> set (raf_queue el) \<longleftrightarrow> i < length (bindings el) \<and> raf_id (bindings el ! i))"
proof -
  have c: "count (mset (raf_queue el)) i = (if i < length (bindings el) \<and> raf_id (bindings el ! i) then 1 else 0)"
    using reachable_tilt_ok [OF assms] unfolding tilt_ok_count by blast
  have "i \<in> set (raf_queue el) \<longleftrightarrow> 0 < count (mset (raf_queue el)) i" by simp
  then show ?thesis using c by simp
qed

text \<open>
  C30. While the pointer events fall inside the element, every target and current angle of
  every binding, and the rotation written to \<open>el.style.transform\<close>, stays within
  \<open>maxTiltDeg / 2 = 5\<close> degrees.
\<close>

theorem tilt_angles_bounded: "tilt_reachable el \<Longrightarrow> tilt_bounded el"
proof (induction rule: tilt_reachable.induct)
  case init
  then show ?case by (simp add: tilt_bounded_def tilt_none_def)
next
  case (step el e)
  then show ?case by (simp add: tilt_bounded_step reachable_tilt_ok)
qed

text \<open>
  C31. The \<open>requestAnimationFrame\<close> loop ends: from any reachable state, once the
  pointer rests, frames run out, and then no callback is pending and every binding is
  within 0.01 degree of its targets.
\<close>

theorem settle_terminates:
  assumes "tilt_reachable el"
  shows "\<exists>el'. settle el = Some el' \<and> raf_queue el' = [] \<and> list_all (\<lambda>b. \<not> raf_id b \<and> gap b \<le> 1/100) (bindings el')"
proof -
  have "\<forall>i. \<exists>n. gap (bindings el ! i) * (22/25) ^ Suc n \<le> 1/100" using gap_eventually_small by blast
  then obtain N where N: "\<forall>i. gap (bindings el ! i) * (22/25) ^ Suc (N i) \<le> 1/100" by (metis choice)
  have "\<exists>el'. settle el = Some el' \<and> raf_queue el' = [] \<and> tilt_ok el' \<and> at_rest_ok el'"
    by (rule settle_ends [where P = at_rest_ok and N = N and m = "\<Sum>i\<leftarrow>raf_queue el. Suc (N i)"])
      (use assms N in \<open>auto simp: reachable_at_rest reachable_tilt_ok list_all_iff intro: at_rest_ok_frame\<close>)
  then obtain el' where el': "settle el = Some el'" "raf_queue el' = []" "tilt_ok el'" "at_rest_ok el'"
    by blast
  have "\<not> raf_id (bindings el' ! j)" if "j < length (bindings el')" for j
    using el'(2,3) that unfolding tilt_ok_count by (metis count_empty mset.simps(1) zero_neq_one)
  then have "list_all (\<lambda>b. \<not> raf_id b \<and> gap b \<le> 1/100) (bindings el')"
    using el'(4) unfolding at_rest_ok_def by (auto simp: list_all_length)
  then show ?thesis using el'(1,2) by blast
qed

text \<open>
  C32. The inertia update agrees with its closed form: after \<open>n\<close> frames towards fixed
  targets, each angle's distance to its target is the initial one times \<open>0.88 ^ n\<close>.
\<close>

theorem advance_closed_form:
  "current_rx ((advance ^^ n) b) = target_rx b + (current_rx b - target_rx b) * (22/25) ^ n \<and>
   current_ry ((advance ^^ n) b) = target_ry b + (current_ry b - target_ry b) * (22/25) ^ n"
proof (induction n)
  case 0
  then show ?case by simp
next
  case (Suc n)
  have step: "c + (t - c) * inertia = t + (c - t) * (22/25)" for c t :: real
    by (simp add: inertia_def field_simps)
  have rx: "current_rx ((advance ^^ Suc n) b) = current_rx ((advance ^^ n) b) + (target_rx b - current_rx ((advance ^^ n) b)) * inertia"
    and ry: "current_ry ((advance ^^ Suc n) b) = current_ry ((advance ^^ n) b) + (target_ry b - current_ry ((advance ^^ n) b)) * inertia"
    by (simp_all add: advance_def)
  show ?case unfolding rx ry step using Suc.IH by simp
qed

text \<open>
  C33. Listeners accumulate: on an element that \<open>enableTiltEffects\<close> has bound \<open>k\<close>
  times, one pointer move starts \<open>k\<close> independent animation loops, one per binding, all
  writing the same \<open>el.style.transform\<close>.
\<close>

theorem tilt_listeners_accumulate:
  "raf_queue (mouse_move rc cx cy ((enable_tilt ^^ k) tilt_none)) = [0..<k]"
proof -
  note e = enable_tilt_funpow [of k]
  have "\<forall>i \<in> set [0..<k]. i < length (bindings ((enable_tilt ^^ k) tilt_none)) \<and>
          \<not> raf_id (bindings ((enable_tilt ^^ k) tilt_none) ! i)"
    using e by (simp add: fresh_binding_def)
  then show ?thesis unfolding mouse_move_def using e fold_apply_tilt_queue [of "[0..<k]"] by simp
qed

lemma tilt_ok_none: "tilt_ok tilt_none"
  by (simp add: tilt_ok_def tilt_none_def active_bindings_def)

lemma length_animate [simp]: "length (bindings (animate i el)) = length (bindings el)"
  by (simp add: animate_def Let_def)

lemma length_tilt_step: "length (bindings el) \<le> length (bindings (tilt_step e el))"
proof (cases e)
  case (Mouse_move rc cx cy)
  have "length (bindings (mouse_move rc cx cy el)) = length (bindings el)"
    unfolding mouse_move_def by (rule fold_keeps [where P = "\<lambda>e. length (bindings e) = length (bindings el)"]) simp_all
  then show ?thesis using Mouse_move by simp
next
  case (Mouse_enter rc cx cy)
  have "length (bindings (mouse_move rc cx cy el)) = length (bindings el)"
    unfolding mouse_move_def by (rule fold_keeps [where P = "\<lambda>e. length (bindings e) = length (bindings el)"]) simp_all
  then show ?thesis using Mouse_enter by simp
next
  case Mouse_leave
  have "length (bindings (mouse_leave el)) = length (bindings el)"
    unfolding mouse_leave_def by (rule fold_keeps [where P = "\<lambda>e. length (bindings e) = length (bindings el)"]) simp_all
  then show ?thesis using Mouse_leave by simp
qed (auto simp: enable_tilt_def frame_def split: option.split list.split)

section \<open>Witnesses\<close>

lemma tilt_single_callback_witness:
  "count (mset (raf_queue demo_tilt)) 1 \<le> 1 \<and>
   (1 \<in> set (raf_queue demo_tilt) \<longleftrightarrow> 1 < length (bindings demo_tilt) \<and> raf_id (bindings demo_tilt ! 1))"
  by (rule tilt_single_callback [OF demo_tilt_reachable])

lemma tilt_angles_bounded_witness: "tilt_bounded demo_tilt"
  by (rule tilt_angles_bounded [OF demo_tilt_reachable])

lemma settle_terminates_witness:
  "\<exists>el'. settle demo_tilt = Some el' \<and> raf_queue el' = [] \<and> list_all (\<lambda>b. \<not> raf_id b \<and> gap b \<le> 1/100) (bindings el')"
  by (rule settle_terminates [OF demo_tilt_reachable])

end
