(* ===== verification/Image_Fallbacks.thy ===== *)
theory Image_Fallbacks
  imports Prelude
begin

text \<open>
  \<open>setupImageFallbacks\<close> (\<open>src/script.js\<close>): every \<open>img\<close> of the document whose
  \<open>data-fallback-applied\<close> is not \<open>'true'\<close> gets one more \<open>error\<close> listener; the
  first listener that runs on an error marks the image and points it at a placeholder whose
  size is chosen from the image's widths. The function runs at start-up and after every
  rendering of the feed, so an image can carry several listeners; an error event runs them
  all in registration order. \<open>Math.random()\<close> is the parameter \<open>r\<close> of the event.
\<close>

record img =
  img_src :: string
  fallback_applied :: bool \<comment> \<open>\<open>img.dataset.fallbackApplied === 'true'\<close>\<close>
  error_listeners :: nat \<comment> \<open>the \<open>error\<close> listeners \<open>fallbackFor\<close> added\<close>
  natural_width :: int \<comment> \<open>\<open>img.naturalWidth || 0\<close>\<close>
  client_width :: int \<comment> \<open>\<open>img.clientWidth || 0\<close>\<close>

text \<open>\<open>Math.max(naturalWidth, clientWidth, 100)\<close> rounded to one of the placeholder sizes.\<close>

definition fallback_size :: "img \<Rightarrow> int" where
  "fallback_size im =
     (let size = max (max (natural_width im) (client_width im)) 100
      in if size \<le> 60 then 60 else if size \<le> 100 then 100 else 150)"

definition fallback_url :: "int \<Rightarrow> real \<Rightarrow> string" where
  "fallback_url rounded r =
     ''https://i.pravatar.cc/'' @ show_int rounded @ ''?u=cricket-'' @ show_int \<lfloor>r * 100000\<rfloor>"

text \<open>\<open>fallbackFor\<close>: an image already marked gets no listener.\<close>

definition fallback_for :: "img \<Rightarrow> img" where
  "fallback_for im = (if fallback_applied im then im else im\<lparr>error_listeners := Suc (error_listeners im)\<rparr>)"

definition setup_image_fallbacks :: "img list \<Rightarrow> img list" where
  "setup_image_fallbacks imgs = map fallback_for imgs"

text \<open>One run of the listener, and an \<open>error\<close> event running all listeners of the image.\<close>

definition error_listener :: "real \<Rightarrow> img \<Rightarrow> img" where
  "error_listener r im =
     (if fallback_applied im then im
      else im\<lparr>fallback_applied := True, img_src := fallback_url (fallback_size im) r\<rparr>)"

definition image_error :: "real \<Rightarrow> img \<Rightarrow> img" where
  "image_error r im = (error_listener r ^^ error_listeners im) im"

text \<open>An avatar whose URL fails to load.\<close>

definition demo_img :: img where
  "demo_img = \<lparr>img_src = ''https://source.unsplash.com/300x300/?india,cricketer,portrait&sig=241'',
               fallback_applied = False, error_listeners = 0, natural_width = 0, client_width = 48\<rparr>"

section \<open>Lemmas\<close>

lemma error_listener_applied [simp]: "fallback_applied (error_listener r im)"
  by (simp add: error_listener_def)

lemma error_listener_marked: "fallback_applied im \<Longrightarrow> error_listener r im = im"
  by (simp add: error_listener_def)

lemma listeners_marked: "fallback_applied im \<Longrightarrow> (error_listener r ^^ n) im = im"
  by (induction n) (simp_all add: error_listener_marked)

lemma listeners_first_acts: "(error_listener r ^^ Suc n) im = error_listener r im"
  by (simp add: funpow_Suc_right listeners_marked del: funpow.simps)

lemma error_listeners_listener [simp]: "error_listeners (error_listener r im) = error_listeners im"
  by (simp add: error_listener_def)

lemma error_listeners_funpow [simp]: "error_listeners ((error_listener r ^^ n) im) = error_listeners im"
  by (induction n) simp_all

lemma fallback_applied_funpow: "0 < n \<Longrightarrow> fallback_applied ((error_listener r ^^ n) im)"
  by (cases n) (simp_all only: listeners_first_acts error_listener_applied)

text \<open>
  C26. The placeholder size is always 100 or 150: \<open>Math.max(\<dots>, 100)\<close> makes the
  branch \<open>size <= 60 ? 60\<close> unreachable.
\<close>

theorem fallback_size_range: "fallback_size im \<in> {100, 150}"
  by (simp add: fallback_size_def Let_def)

text \<open>
  C27. An image is replaced at most once: after an \<open>error\<close> event, a second one (the
  placeholder failing too) changes nothing, however many listeners the image carries.
\<close>

theorem image_error_once: "image_error r (image_error r' im) = image_error r' im"
proof (cases "error_listeners im")
  case 0
  then show ?thesis by (simp add: image_error_def)
next
  case (Suc n)
  then have "fallback_applied (image_error r' im)" by (simp add: image_error_def fallback_applied_funpow)
  then show ?thesis by (simp add: image_error_def listeners_marked)
qed

text \<open>
  C28. On the first error of an image that has a listener, exactly the first listener acts:
  the image is marked and shows the placeholder of its size, with a random suffix below
  100000.
\<close>

theorem image_error_fallback:
  assumes "\<not> fallback_applied im" "0 < error_listeners im" "0 \<le> r" "r < 1"
  shows "image_error r im = im\<lparr>fallback_applied := True, img_src := fallback_url (fallback_size im) r\<rparr> \<and>
         0 \<le> \<lfloor>r * 100000\<rfloor> \<and> \<lfloor>r * 100000\<rfloor> \<le> 99999"
proof -
  obtain n where n: "error_listeners im = Suc n" using assms(2) gr0_implies_Suc by blast
  have "image_error r im = error_listener r im" unfolding image_error_def n by (rule listeners_first_acts)
  moreover have "\<lfloor>r * 100000\<rfloor> \<le> 99999"
  proof -
    have "r * 100000 < 100000" using assms(4) by simp
    then show ?thesis by linarith
  qed
  ultimately show ?thesis using assms(1,3) by (simp add: error_listener_def)
qed

section \<open>Witnesses\<close>

lemma image_error_fallback_witness:
  "image_error (1/2) (fallback_for demo_img) =
     (fallback_for demo_img)\<lparr>fallback_applied := True, img_src := ''https://i.pravatar.cc/100?u=cricket-50000''\<rparr>"
proof -
  have "image_error (1/2) (fallback_for demo_img) =
          (fallback_for demo_img)\<lparr>fallback_applied := True, img_src := fallback_url (fallback_size (fallback_for demo_img)) (1/2)\<rparr>"
    using image_error_fallback [of "fallback_for demo_img" "1/2"]
    by (simp add: demo_img_def fallback_for_def)
  then show ?thesis
    by (simp add: fallback_url_def fallback_size_def demo_img_def fallback_for_def js_eval)
qed

end
