(* ===== verification/Scene3D.thy ===== *)
theory Scene3D
  imports Prelude
begin

text \<open>
  \<open>setup3DEnvironment\<close> (\<open>src/script.js\<close>): if the page has a \<open>.main-content\<close>
  element, it gets a perspective, every element of the 3D selector list
  (\<open>.post-card, .create-post, .sidebar, \<dots>, .nav-btn\<close>) outside the feed gets
  \<open>preserve-3d\<close> and \<open>will-change: transform\<close>, and the \<open>.modal-content\<close>, if present,
  a fixed transform and transition; without \<open>.main-content\<close> the function returns at once.
  The styles are the inline style properties the function writes; the cards inside the
  feed are values of \<open>Feed\<close> and are not tracked here.
\<close>

record main_css =
  perspective :: string
  perspective_origin :: string

record css3d =
  transform_style :: string
  will_change :: string

record modal_css =
  modal_transform :: string
  modal_transition :: string

record scene =
  main_content :: "main_css option" \<comment> \<open>\<open>document.querySelector('.main-content')\<close>\<close>
  scene_els :: "css3d list" \<comment> \<open>the elements of the selector list outside \<open>#postsFeed\<close>\<close>
  modal_content :: "modal_css option" \<comment> \<open>\<open>document.querySelector('.modal-content')\<close>\<close>

definition preserve_3d :: "css3d \<Rightarrow> css3d" where
  "preserve_3d el = el\<lparr>transform_style := ''preserve-3d'', will_change := ''transform''\<rparr>"

definition modal_pop :: "modal_css \<Rightarrow> modal_css" where
  "modal_pop mc = mc\<lparr>modal_transform := ''translateZ(0) scale(0.98)'', modal_transition := ''transform 250ms ease''\<rparr>"

definition setup_3d_environment :: "scene \<Rightarrow> scene" where
  "setup_3d_environment sc =
     (case main_content sc of
        None \<Rightarrow> sc
      | Some m \<Rightarrow>
          sc\<lparr>main_content := Some (m\<lparr>perspective := ''1200px'', perspective_origin := ''50% 20%''\<rparr>),
             scene_els := map preserve_3d (scene_els sc),
             modal_content := map_option modal_pop (modal_content sc)\<rparr>)"

section \<open>Lemmas\<close>

lemma preserve_3d_idem [simp]: "preserve_3d (preserve_3d el) = preserve_3d el"
  by (simp add: preserve_3d_def)

lemma modal_pop_idem [simp]: "modal_pop (modal_pop mc) = modal_pop mc"
  by (simp add: modal_pop_def)

text \<open>
  Running the function again (after every navigation) changes nothing more: the styles
  written at start-up are a fixed point.
\<close>

lemma setup_3d_environment_idem: "setup_3d_environment (setup_3d_environment sc) = setup_3d_environment sc"
  by (simp add: setup_3d_environment_def option.map_comp comp_def split: option.split)

text \<open>
  In a scene that is set up and has a \<open>.main-content\<close>, the modal content carries the fixed
  transform \<open>scale(0.98)\<close>: nothing else in the script writes it.
\<close>

lemma setup_modal_fixed:
  assumes "setup_3d_environment sc = sc" "main_content sc \<noteq> None" "modal_content sc = Some mc"
  shows "modal_transform mc = ''translateZ(0) scale(0.98)''"
proof -
  have "modal_content (setup_3d_environment sc) = Some (modal_pop mc)"
    using assms(2,3) by (auto simp: setup_3d_environment_def split: option.split)
  then have "modal_pop mc = mc" using assms(1,3) by simp
  then have "modal_transform mc = modal_transform (modal_pop mc)" by simp
  then show ?thesis by (simp add: modal_pop_def)
qed

end
