(* ===== verification/Store_Spec.thy ===== *)
theory Store_Spec
  imports Posts
begin

text \<open>
  The Post Store as the specification states its contract (section 4.1 of \<open>spec.md\<close>),
  independent of the code: \<open>create\<close> fails with \<open>ValidationError\<close> on a text that is
  empty after trimming and otherwise allocates a fresh unique id and inserts the new post,
  counters zero, at the head; \<open>toggleEngagement\<close> and \<open>incrementComment\<close> fail with
  \<open>NotFoundError\<close> on an unknown id and otherwise change the post with that id. Failures
  are values of the sum type \<open>store_error + post list\<close>; a failed operation leaves the
  store as it was (\<open>store_after\<close>). The contract does not fix which fresh id
  \<open>create\<close> picks, so it is a predicate on outcomes (\<open>spec_step\<close>): any id not in the
  store is permitted. \<open>App\<close> proves that the handlers implement this contract.
\<close>

datatype store_error = ValidationError | NotFoundError

datatype engagement_kind = Like_kind | Reshare_kind

text \<open>Flip the flag, and move the counter by +1 when it becomes true, by -1 otherwise.\<close>

fun spec_flip :: "engagement_kind \<Rightarrow> post \<Rightarrow> post" where
  "spec_flip Like_kind p =
     p\<lparr>liked := \<not> liked p, likes := (if liked p then likes p - 1 else likes p + 1)\<rparr>"
| "spec_flip Reshare_kind p =
     p\<lparr>retweeted := \<not> retweeted p, retweets := (if retweeted p then retweets p - 1 else retweets p + 1)\<rparr>"

definition created_post :: "author \<Rightarrow> string \<Rightarrow> string option \<Rightarrow> millis \<Rightarrow> int \<Rightarrow> post" where
  "created_post u t img ts i =
     \<lparr>post_id = i, user = u, content = t, image = img, timestamp = ts,
      likes = 0, retweets = 0, comments = 0, liked = False, retweeted = False\<rparr>"

definition spec_create ::
  "author \<Rightarrow> string \<Rightarrow> string option \<Rightarrow> millis \<Rightarrow> post list \<Rightarrow> store_error + post list \<Rightarrow> bool" where
  "spec_create u t img ts ps r \<longleftrightarrow>
     (if js_trim t = [] then r = Inl ValidationError
      else (case r of
              Inr (p # ps') \<Rightarrow> ps' = ps \<and> post_id p \<notin> set (map post_id ps) \<and> p = created_post u t img ts (post_id p)
            | _ \<Rightarrow> False))"

definition spec_toggle :: "int \<Rightarrow> engagement_kind \<Rightarrow> post list \<Rightarrow> store_error + post list" where
  "spec_toggle i k ps =
     (if i \<in> set (map post_id ps) then Inr (map (\<lambda>p. if post_id p = i then spec_flip k p else p) ps)
      else Inl NotFoundError)"

definition spec_comment :: "int \<Rightarrow> post list \<Rightarrow> store_error + post list" where
  "spec_comment i ps =
     (if i \<in> set (map post_id ps)
      then Inr (map (\<lambda>p. if post_id p = i then p\<lparr>comments := comments p + 1\<rparr> else p) ps)
      else Inl NotFoundError)"

text \<open>The store operations and the outcomes the contract permits for each.\<close>

datatype store_op =
    Create author string "string option" millis \<comment> \<open>author, text, image, time\<close>
  | Toggle_engagement int engagement_kind
  | Increment_comment int

fun spec_step :: "store_op \<Rightarrow> post list \<Rightarrow> store_error + post list \<Rightarrow> bool" where
  "spec_step (Create u t img ts) ps r = spec_create u t img ts ps r"
| "spec_step (Toggle_engagement i k) ps r = (r = spec_toggle i k ps)"
| "spec_step (Increment_comment i) ps r = (r = spec_comment i ps)"

definition store_after :: "post list \<Rightarrow> store_error + post list \<Rightarrow> post list" where
  "store_after ps r = (case r of Inl _ \<Rightarrow> ps | Inr ps' \<Rightarrow> ps')"

section \<open>Lemmas\<close>

text \<open>Every outcome the contract permits keeps ids unique.\<close>

lemma spec_step_distinct:
  assumes "spec_step op ps r" "distinct (map post_id ps)"
  shows "distinct (map post_id (store_after ps r))"
proof -
  have flip: "post_id (spec_flip k p) = post_id p" for k p by (cases k) simp_all
  have keep: "post_id \<circ> (\<lambda>p. if post_id p = i then g p else p) = post_id"
    if "\<And>p. post_id (g p) = post_id p" for i and g :: "post \<Rightarrow> post" using that by (simp add: fun_eq_iff)
  show ?thesis
  proof (cases op)
    case (Create u t img ts)
    then show ?thesis using assms
      by (auto simp: store_after_def spec_create_def split: if_splits sum.splits list.splits)
  qed (use assms in \<open>simp_all add: store_after_def spec_toggle_def spec_comment_def keep flip\<close>)
qed

end
