(* ===== verification/App.thy ===== *)
theory App
  imports Feed Notifications Tilt Image_Fallbacks Scene3D Store_Spec
begin

text \<open>
  The interaction controller: the state of one \<open>LinkUpApp\<close> object and the DOM nodes
  its handlers write, and one function per handler of \<open>src/script.js\<close>, each doing what
  the handler does in the order it does it (the mutation, \<open>renderPosts\<close>, the textarea,
  \<open>showNotification\<close>). Browser capabilities (\<open>navigator.share\<close>,
  \<open>navigator.geolocation\<close>), the page URL and the locale's date format are fields of an
  environment record that no handler changes. Calls into the browser whose results the
  application never reads (the share sheet, the clipboard) are recorded in \<open>effects\<close>.
  The lemmas show each handler's behaviour on its branches, the invariants of the reachable
  states (engagement counters, distinct ids, theme and page agree, well-formed toasts, the
  latter through the interface lemma \<open>handle_toasts_preserved\<close>), and end-to-end runs.
\<close>

section \<open>State\<close>

record environment =
  has_share :: bool
  has_geolocation :: bool
  location_href :: string
  locale_date :: "millis \<Rightarrow> string"
  view_ids :: "string list" \<comment> \<open>the ids of the \<open>.view-section\<close> elements of the page\<close>

datatype effect =
    Share_sheet string string string \<comment> \<open>\<open>navigator.share({title, text, url})\<close>\<close>
  | Clipboard_write string
  | Default_prevented string \<comment> \<open>\<open>e.preventDefault()\<close> of a key event\<close>
  | Scroll_to_top \<comment> \<open>\<open>window.scrollTo({top: 0, behavior: 'smooth'})\<close>\<close>

record app =
  env :: environment
  clock :: millis \<comment> \<open>\<open>Date.now()\<close> at the latest event\<close>
  storage :: "string \<Rightarrow> string option" \<comment> \<open>\<open>localStorage\<close>\<close>
  current_theme :: string
  data_theme :: string \<comment> \<open>the \<open>data-theme\<close> attribute of \<open>document.documentElement\<close>\<close>
  theme_icon :: string \<comment> \<open>the class of the icon in \<open>#themeToggle\<close>\<close>
  posts :: "post list"
  current_user :: profile
  profile_stats :: "string list" \<comment> \<open>the texts of the three \<open>.stat-number\<close> elements\<close>
  feed :: feed \<comment> \<open>the content of \<open>#postsFeed\<close>\<close>
  post_text :: string \<comment> \<open>the value of \<open>#postText\<close>\<close>
  toast_state :: toasts
  effects :: "effect list"
  focused :: string \<comment> \<open>the id of the element that has the focus\<close>
  modal_open :: bool \<comment> \<open>\<open>#imageModal\<close> has \<open>display: block\<close>\<close>
  modal_image :: string
  active_nav :: "string option" \<comment> \<open>the nav button with class \<open>active\<close>\<close>
  visible_view :: "string option" \<comment> \<open>the one \<open>.view-section\<close> not hidden\<close>
  follow_labels :: "string list" \<comment> \<open>the text of each \<open>.follow-btn\<close>\<close>
  chrome_tilt :: tilt_el \<comment> \<open>a tilt element outside \<open>#postsFeed\<close> (a nav button, the composer)\<close>
  chrome_imgs :: "img list" \<comment> \<open>the images outside \<open>#postsFeed\<close>\<close>
  follow_colors :: "string list" \<comment> \<open>\<open>style.backgroundColor\<close> of the \<open>.follow-btn\<close> elements\<close>
  scene_3d :: scene \<comment> \<open>the inline 3D styles \<open>setup3DEnvironment\<close> writes\<close>

section \<open>Helpers shared by the handlers\<close>

text \<open>
  \<open>renderPosts(postsToRender = this.posts)\<close>, at time \<open>now\<close>: the feed, then, unless
  the list is empty (the early \<open>return\<close> after the \<open>no-posts\<close> message),
  \<open>setupImageFallbacks\<close> and \<open>enableTiltEffects\<close> on the elements outside the feed.
\<close>

definition render_with :: "millis \<Rightarrow> post list \<Rightarrow> app \<Rightarrow> app" where
  "render_with now ps s =
     s\<lparr>feed := render_posts (locale_date (env s)) now ps,
       chrome_imgs := (if ps = [] then chrome_imgs s else setup_image_fallbacks (chrome_imgs s)),
       chrome_tilt := (if ps = [] then chrome_tilt s else enable_tilt (chrome_tilt s))\<rparr>"

definition render_all :: "millis \<Rightarrow> app \<Rightarrow> app" where
  "render_all now s = render_with now (posts s) s"

definition notify :: "millis \<Rightarrow> string \<Rightarrow> note_type \<Rightarrow> app \<Rightarrow> app" where
  "notify now msg ty s = s\<lparr>toast_state := show_notification now msg ty (toast_state s)\<rparr>"

definition theme_icon_for :: "string \<Rightarrow> string" where
  "theme_icon_for t = (if t = ''dark'' then ''fas fa-sun'' else ''fas fa-moon'')"

section \<open>Theme\<close>

text \<open>\<open>setupTheme\<close> and \<open>toggleTheme\<close>.\<close>

definition setup_theme :: "app \<Rightarrow> app" where
  "setup_theme s = s\<lparr>data_theme := current_theme s, theme_icon := theme_icon_for (current_theme s)\<rparr>"

definition toggle_theme :: "app \<Rightarrow> app" where
  "toggle_theme s =
     (let t = (if current_theme s = ''light'' then ''dark'' else ''light'')
      in s\<lparr>current_theme := t, data_theme := t, storage := (storage s)(''theme'' \<mapsto> t),
           theme_icon := theme_icon_for t\<rparr>)"

section \<open>Post creation\<close>

text \<open>\<open>createPost\<close>: a blank text (after \<open>trim\<close>) returns at once.\<close>

definition create_post :: "millis \<Rightarrow> app \<Rightarrow> app" where
  "create_post now s =
     (let text = js_trim (post_text s)
      in if text = [] then s
         else let s1 = s\<lparr>posts := new_post now (current_user s) text # posts s\<rparr>;
                  s2 = render_all now s1;
                  s3 = s2\<lparr>post_text := []\<rparr>
              in notify now ''Post published successfully!'' Success s3)"

text \<open>
  \<open>addImageToPost\<close>: the file dialog is the browser's; once a file is read the handler only
  notifies. \<open>addEmojiToPost\<close>: \<open>Math.random()\<close> is the parameter \<open>r\<close>.
  \<open>addLocationToPost\<close>: without geolocation a warning at once; with it a notification
  once the position arrives (\<open>location_granted\<close>).
\<close>

definition image_loaded :: "millis \<Rightarrow> app \<Rightarrow> app" where
  "image_loaded now s = notify now ''Image added to post!'' Info s"

definition emojis :: "string list" where
  "emojis =
     [[CHR 0xF0, CHR 0x9F, CHR 0x98, CHR 0x80], [CHR 0xF0, CHR 0x9F, CHR 0x98, CHR 0x82],
      [CHR 0xE2, CHR 0x9D, CHR 0xA4, CHR 0xEF, CHR 0xB8, CHR 0x8F], [CHR 0xF0, CHR 0x9F, CHR 0x91, CHR 0x8D],
      [CHR 0xF0, CHR 0x9F, CHR 0x8E, CHR 0x89], [CHR 0xF0, CHR 0x9F, CHR 0x94, CHR 0xA5],
      [CHR 0xF0, CHR 0x9F, CHR 0x92, CHR 0xAF], [CHR 0xE2, CHR 0x9C, CHR 0xA8],
      [CHR 0xF0, CHR 0x9F, CHR 0x9A, CHR 0x80], [CHR 0xF0, CHR 0x9F, CHR 0x92, CHR 0xA1]]"

definition emoji_index :: "real \<Rightarrow> int" where
  "emoji_index r = \<lfloor>r * real (length emojis)\<rfloor>"

definition add_emoji :: "real \<Rightarrow> app \<Rightarrow> app" where
  "add_emoji r s = s\<lparr>post_text := post_text s @ emojis ! nat (emoji_index r), focused := ''postText''\<rparr>"

definition add_location :: "millis \<Rightarrow> app \<Rightarrow> app" where
  "add_location now s =
     (if has_geolocation (env s) then s else notify now ''Location services not available'' Warning s)"

definition location_granted :: "millis \<Rightarrow> app \<Rightarrow> app" where
  "location_granted now s = notify now ''Location added to post!'' Info s"

section \<open>Post actions\<close>

text \<open>\<open>sharePost\<close>.\<close>

definition share_post :: "millis \<Rightarrow> post \<Rightarrow> app \<Rightarrow> app" where
  "share_post now p s =
     (if has_share (env s)
      then s\<lparr>effects := effects s @ [Share_sheet ''Check out this post on LinkUp'' (content p) (location_href (env s))]\<rparr>
      else notify now ''Post link copied to clipboard!'' Success
             (s\<lparr>effects := effects s @ [Clipboard_write (content p @ '' - Shared from LinkUp'')]\<rparr>))"

text \<open>
  \<open>handlePostAction\<close>: an unknown id returns before rendering; otherwise the found post is
  mutated (or shared), and the whole post list is rendered again.
\<close>

definition handle_post_action :: "millis \<Rightarrow> action \<Rightarrow> int \<Rightarrow> app \<Rightarrow> app" where
  "handle_post_action now a pid s =
     (case find_post pid (posts s) of
        None \<Rightarrow> s
      | Some p \<Rightarrow>
          let s1 = (case a of
                      Comment \<Rightarrow> notify now ''Comment added!'' Info
                                   (s\<lparr>posts := update_post pid add_comment (posts s)\<rparr>)
                    | Share \<Rightarrow> share_post now p s
                    | _ \<Rightarrow> s\<lparr>posts := update_post pid (apply_action a) (posts s)\<rparr>)
          in render_all now s1)"

section \<open>Search\<close>

text \<open>\<open>handleSearch\<close>: a query shorter than two code units returns without rendering.\<close>

definition handle_search :: "millis \<Rightarrow> string \<Rightarrow> app \<Rightarrow> app" where
  "handle_search now query s =
     (if js_length query < 2 then s else render_with now (search_posts query (posts s)) s)"

section \<open>Navigation, follow buttons, modal, keyboard\<close>

text \<open>
  \<open>setActiveNav\<close>: the five nav buttons exist (\<open>setupEventListeners\<close> binds them); the
  view sections are the page's. Going home renders the whole post list again; then
  \<open>setup3DEnvironment\<close>, \<open>enableTiltEffects\<close> on the elements outside the feed, and
  the scroll to the top.
\<close>

definition nav_items :: "string list" where
  "nav_items = [''home'', ''explore'', ''notifications'', ''messages'', ''profile'']"

definition view_map :: "string \<Rightarrow> string option" where
  "view_map item =
     (if item = ''home'' then Some ''homeView''
      else if item = ''explore'' then Some ''exploreView''
      else if item = ''notifications'' then Some ''notificationsView''
      else if item = ''messages'' then Some ''messagesView''
      else if item = ''profile'' then Some ''profileView'' else None)"

definition set_active_nav :: "millis \<Rightarrow> string \<Rightarrow> app \<Rightarrow> app" where
  "set_active_nav now item s =
     (let s1 = s\<lparr>active_nav := (if item \<in> set nav_items then Some (item @ ''Btn'') else None),
                 visible_view := (case view_map item of
                                    Some v \<Rightarrow> if v \<in> set (view_ids (env s)) then Some v else None
                                  | None \<Rightarrow> None)\<rparr>;
          s2 = (if item = ''home'' then render_all now s1 else s1)
      in s2\<lparr>scene_3d := setup_3d_environment (scene_3d s2), chrome_tilt := enable_tilt (chrome_tilt s2),
            effects := effects s2 @ [Scroll_to_top]\<rparr>)"

text \<open>\<open>handleFollow\<close> on the \<open>k\<close>-th \<open>.follow-btn\<close>: its label, its colour, the notification.\<close>

definition handle_follow :: "millis \<Rightarrow> nat \<Rightarrow> app \<Rightarrow> app" where
  "handle_follow now k s =
     (if k < length (follow_labels s) then
        let is_following = (follow_labels s ! k = ''Following'')
        in notify now (if is_following then ''Unfollowed user'' else ''Now following user'') Info
             (s\<lparr>follow_labels := (follow_labels s)[k := (if is_following then ''Follow'' else ''Following'')],
                follow_colors := (follow_colors s)[k := (if is_following then ''var(--accent-color)'' else ''var(--success-color)'')]\<rparr>)
      else s)"

definition open_modal :: "string \<Rightarrow> app \<Rightarrow> app" where
  "open_modal src s = s\<lparr>modal_image := src, modal_open := True\<rparr>"

definition close_modal :: "app \<Rightarrow> app" where
  "close_modal s = s\<lparr>modal_open := False\<rparr>"

text \<open>The click listener of \<open>#imageModal\<close>: only a click on the backdrop itself closes.\<close>

definition modal_click :: "string \<Rightarrow> app \<Rightarrow> app" where
  "modal_click target_id s = (if target_id = ''imageModal'' then close_modal s else s)"

definition handle_keyboard_shortcuts :: "bool \<Rightarrow> bool \<Rightarrow> string \<Rightarrow> app \<Rightarrow> app" where
  "handle_keyboard_shortcuts ctrl meta key s =
     (if ctrl \<or> meta then
        (if key = ''k'' then s\<lparr>effects := effects s @ [Default_prevented key], focused := ''searchInput''\<rparr>
         else if key = ''n'' then s\<lparr>effects := effects s @ [Default_prevented key], focused := ''postText''\<rparr>
         else s)
      else s)"

section \<open>Timers, profile, start-up\<close>

definition timer_fired :: "millis \<Rightarrow> nat \<Rightarrow> app \<Rightarrow> app" where
  "timer_fired now k s =
     (case fire_timer now k (toast_state s) of None \<Rightarrow> s | Some ts \<Rightarrow> s\<lparr>toast_state := ts\<rparr>)"

text \<open>
  Events on the elements outside the feed: a pointer event or an animation frame on the
  tilt element, and an \<open>error\<close> event of the \<open>k\<close>-th image (with the value of
  \<open>Math.random()\<close> its listener draws).
\<close>

definition chrome_pointer :: "tilt_event \<Rightarrow> app \<Rightarrow> app" where
  "chrome_pointer te s = s\<lparr>chrome_tilt := tilt_step te (chrome_tilt s)\<rparr>"

definition chrome_image_error :: "nat \<Rightarrow> real \<Rightarrow> app \<Rightarrow> app" where
  "chrome_image_error k r s =
     (if k < length (chrome_imgs s) then s\<lparr>chrome_imgs := (chrome_imgs s)[k := image_error r (chrome_imgs s ! k)]\<rparr>
      else s)"

text \<open>\<open>updateUserProfile\<close>: the first three \<open>.stat-number\<close> texts, if there are three.\<close>

definition update_user_profile :: "app \<Rightarrow> app" where
  "update_user_profile s =
     (if 3 \<le> length (profile_stats s)
      then s\<lparr>profile_stats := [format_number (following (current_user s)),
                              format_number (followers (current_user s)),
                              format_number (post_count (current_user s))] @ drop 3 (profile_stats s)\<rparr>
      else s)"

text \<open>
  The page before the script runs: what \<open>index.html\<close> holds that the handlers read.
\<close>

record page =
  page_stats :: "string list"
  page_follow_labels :: "string list"
  page_active_nav :: "string option"
  page_visible_view :: "string option"
  page_imgs :: "img list" \<comment> \<open>the images of the page outside \<open>#postsFeed\<close>\<close>
  page_scene :: scene \<comment> \<open>the elements \<open>setup3DEnvironment\<close> selects, before it runs\<close>

text \<open>
  \<open>new LinkUpApp()\<close>: \<open>localStorage.getItem('theme') || 'light'\<close> (a missing or empty
  entry gives \<open>light\<close>), then \<open>init\<close>: \<open>setupTheme\<close>, \<open>loadSampleData\<close>,
  \<open>renderPosts\<close>, \<open>updateUserProfile\<close>, \<open>setupImageFallbacks\<close>,
  \<open>setup3DEnvironment\<close> and \<open>enableTiltEffects\<close>. The follow buttons
  have no inline background colour yet.
\<close>

definition stored_theme :: "(string \<Rightarrow> string option) \<Rightarrow> string" where
  "stored_theme st = (case st ''theme'' of Some t \<Rightarrow> if t = [] then ''light'' else t | None \<Rightarrow> ''light'')"

definition app_init :: "millis \<Rightarrow> environment \<Rightarrow> (string \<Rightarrow> string option) \<Rightarrow> page \<Rightarrow> app" where
  "app_init now e st pg =
     (let s0 = \<lparr>env = e, clock = now, storage = st, current_theme = stored_theme st,
                data_theme = [], theme_icon = [], posts = [], current_user = initial_user,
                profile_stats = page_stats pg, feed = No_posts_found, post_text = [],
                toast_state = no_toasts, effects = [], focused = [], modal_open = False,
                modal_image = [], active_nav = page_active_nav pg,
                visible_view = page_visible_view pg, follow_labels = page_follow_labels pg,
                chrome_tilt = tilt_none, chrome_imgs = page_imgs pg,
                follow_colors = map (\<lambda>_. []) (page_follow_labels pg), scene_3d = page_scene pg\<rparr>;
          s1 = setup_theme s0;
          s2 = s1\<lparr>posts := sample_posts now\<rparr>;
          s3 = render_all now s2;
          s4 = update_user_profile s3
      in s4\<lparr>chrome_imgs := setup_image_fallbacks (chrome_imgs s4), scene_3d := setup_3d_environment (scene_3d s4),
            chrome_tilt := enable_tilt (chrome_tilt s4)\<rparr>)"

section \<open>Events and the step function\<close>

text \<open>
  One constructor per listener of \<open>setupEventListeners\<close> and per inline \<open>onclick\<close> of
  the cards, plus the user typing into the textarea, the file and position callbacks and
  the firing of a pending timer.
\<close>

datatype event =
    Toggle_theme
  | Nav_click string
  | Type_post_text string
  | Publish
  | Image_loaded
  | Add_emoji real
  | Add_location
  | Location_granted
  | Post_action action int
  | Search_input string
  | Open_modal string
  | Close_click
  | Modal_click string
  | Follow_click nat
  | Key_down bool bool string
  | Timer_fire nat
  | Chrome_event tilt_event
  | Chrome_image_error nat real

fun handle :: "millis \<Rightarrow> event \<Rightarrow> app \<Rightarrow> app" where
  "handle now Toggle_theme s = toggle_theme s"
| "handle now (Nav_click item) s = set_active_nav now item s"
| "handle now (Type_post_text t) s = s\<lparr>post_text := t\<rparr>"
| "handle now Publish s = create_post now s"
| "handle now Image_loaded s = image_loaded now s"
| "handle now (Add_emoji r) s = add_emoji r s"
| "handle now Add_location s = add_location now s"
| "handle now Location_granted s = location_granted now s"
| "handle now (Post_action a pid) s = handle_post_action now a pid s"
| "handle now (Search_input q) s = handle_search now q s"
| "handle now (Open_modal src) s = open_modal src s"
| "handle now Close_click s = close_modal s"
| "handle now (Modal_click target) s = modal_click target s"
| "handle now (Follow_click k) s = handle_follow now k s"
| "handle now (Key_down ctrl meta key) s = handle_keyboard_shortcuts ctrl meta key s"
| "handle now (Timer_fire k) s = timer_fired now k s"
| "handle now (Chrome_event te) s = chrome_pointer te s"
| "handle now (Chrome_image_error k r) s = chrome_image_error k r s"

definition step :: "millis \<Rightarrow> event \<Rightarrow> app \<Rightarrow> app" where
  "step now e s = handle now e (s\<lparr>clock := now\<rparr>)"

fun run :: "app \<Rightarrow> (millis \<times> event) list \<Rightarrow> app" where
  "run s [] = s"
| "run s ((t, e) # es) = run (step t e s) es"

text \<open>
  The states one page load can reach: start-up, then any events, each at a time not
  before the previous one (the event loop runs handlers one at a time, to completion).
\<close>

inductive reachable :: "app \<Rightarrow> bool" where
  init: "reachable (app_init now e st pg)"
| step: "reachable s \<Longrightarrow> clock s \<le> t \<Longrightarrow> reachable (step t ev s)"

inductive strict_reachable :: "app \<Rightarrow> bool" where
  init: "5 < now \<Longrightarrow> strict_reachable (app_init now e st pg)"
| step: "strict_reachable s \<Longrightarrow> clock s < t \<Longrightarrow> strict_reachable (step t ev s)"

section \<open>The store contract\<close>

text \<open>
  The Post Store operation of \<open>Store_Spec\<close> that an event performs: publishing creates a
  post by the current user with the trimmed text, no image and \<open>Date.now()\<close> as time
  (the id the code picks is checked against the contract's fresh-id requirement); a like,
  retweet or comment button toggles or increments on the post's id. Every other event
  performs no store operation.
\<close>

fun store_op_of :: "millis \<Rightarrow> event \<Rightarrow> app \<Rightarrow> store_op option" where
  "store_op_of now Publish s =
     Some (Create \<lparr>name = name (current_user s), username = username (current_user s),
                   avatar = avatar (current_user s)\<rparr> (js_trim (post_text s)) None now)"
| "store_op_of now (Post_action Like i) s = Some (Toggle_engagement i Like_kind)"
| "store_op_of now (Post_action Retweet i) s = Some (Toggle_engagement i Reshare_kind)"
| "store_op_of now (Post_action Comment i) s = Some (Increment_comment i)"
| "store_op_of now ev s = None"

section \<open>Fixtures for the witnesses\<close>

text \<open>A page load at time 1000 in a browser without the share sheet.\<close>

definition demo_env :: environment where
  "demo_env = \<lparr>has_share = False, has_geolocation = True, location_href = ''https://linkup.example/'',
               locale_date = (\<lambda>_. ''1/1/2025''), view_ids = [''homeView'', ''exploreView'']\<rparr>"

definition demo_page :: page where
  "demo_page = \<lparr>page_stats = [''0'', ''0'', ''0''], page_follow_labels = [''Follow''],
                page_active_nav = Some ''homeBtn'', page_visible_view = Some ''homeView'',
                page_imgs = [demo_img],
                page_scene = \<lparr>main_content = Some \<lparr>perspective = [], perspective_origin = []\<rparr>,
                              scene_els = [\<lparr>transform_style = [], will_change = []\<rparr>],
                              modal_content = Some \<lparr>modal_transform = [], modal_transition = []\<rparr>\<rparr>\<rparr>"

definition demo_app :: app where
  "demo_app = app_init 1000 demo_env Map.empty demo_page"

section \<open>Lemmas\<close>

lemmas app_frame_defs = notify_def render_all_def render_with_def

lemmas handler_defs = toggle_theme_def set_active_nav_def create_post_def image_loaded_def
  add_emoji_def add_location_def location_granted_def handle_post_action_def share_post_def
  handle_search_def open_modal_def close_modal_def modal_click_def handle_follow_def
  handle_keyboard_shortcuts_def timer_fired_def chrome_pointer_def chrome_image_error_def app_frame_defs Let_def

text \<open>
  C1. \<open>createPost\<close> with a text that is not blank after \<open>trim\<close> puts a new post at the head of
  the list (id and timestamp \<open>Date.now()\<close>, author the current user, the trimmed text, no
  image, counters zero), renders the whole list, clears the textarea and shows one success
  notification.
\<close>

theorem create_post_publishes:
  assumes "js_trim (post_text s) \<noteq> []"
  shows "posts (create_post now s) = new_post now (current_user s) (js_trim (post_text s)) # posts s \<and>
         feed (create_post now s) = render_posts (locale_date (env s)) now (posts (create_post now s)) \<and>
         post_text (create_post now s) = [] \<and>
         shown (toast_state (create_post now s)) = shown (toast_state s) @
           [\<lparr>note_id = next_note (toast_state s), message = ''Post published successfully!'',
             note_type = Success, sliding_out = False\<rparr>]"
  using assms js_trim_nonempty [OF assms]
  by (simp add: create_post_def app_frame_defs show_notification_def Let_def)


text \<open>
  C3. \<open>createPost\<close> with a text made only of ECMAScript white space (any mix of the
  one-byte spaces, the no-break space, the Unicode space separators, the line and paragraph
  separators and the byte-order mark, as UTF-8) also changes nothing: \<open>trim\<close> removes all
  of it.
\<close>

theorem create_post_unicode_blank_noop:
  assumes "\<forall>u \<in> set us. u \<in> set js_space_seqs" "post_text s = concat us"
  shows "create_post now s = s"
  using js_trim_spaces [OF assms(1)] assms(2) by (simp add: create_post_def)

lemma find_post_update_post:
  "find_post pid ps = Some p \<Longrightarrow> post_id (f p) = pid \<Longrightarrow> find_post pid (update_post pid f ps) = Some (f p)"
  by (simp add: find_post_def update_post_def)

text \<open>
  C4. Liking a post twice restores the post list exactly: the flag and the counter come back,
  and no other post is touched.
\<close>

theorem toggle_like_twice_restores:
  assumes found: "find_post pid (posts s) \<noteq> None"
  shows "posts (handle_post_action t2 Like pid (handle_post_action t1 Like pid s)) = posts s"
proof -
  from found obtain p where assms: "find_post pid (posts s) = Some p" by blast
  have p: "post_id p = pid" using assms unfolding find_post_def by (metis (mono_tags) find_Some_iff)
  let ?s1 = "handle_post_action t1 Like pid s"
  have al: "apply_action Like = toggle_like" by (rule ext) simp
  have s1: "posts ?s1 = update_post pid toggle_like (posts s)"
    using assms by (simp add: handle_post_action_def app_frame_defs al)
  have "find_post pid (posts ?s1) = Some (toggle_like p)"
    using s1 assms p by (simp add: find_post_update_post toggle_like_def Let_def)
  then have "posts (handle_post_action t2 Like pid ?s1) = update_post pid toggle_like (posts ?s1)"
    by (simp add: handle_post_action_def app_frame_defs al)
  also have "\<dots> = update_first (\<lambda>p. post_id p = pid) (toggle_like \<circ> toggle_like) (posts s)"
    unfolding s1 update_post_def by (rule update_first_compose) (simp add: toggle_like_def Let_def)
  also have "\<dots> = posts s"
    by (rule update_first_id) (simp add: toggle_like_involutive)
  finally show ?thesis .
qed

text \<open>
  C5. \<open>handlePostAction\<close> with an id no post has returns before doing anything, rendering
  included.
\<close>

theorem post_action_unknown_noop:
  "find_post pid (posts s) = None \<Longrightarrow> handle_post_action now a pid s = s"
  by (simp add: handle_post_action_def)

text \<open>
  C6. \<open>handleSearch\<close> with a query of fewer than two UTF-16 code units returns without
  rendering: the feed keeps whatever it showed before, it is not emptied.
\<close>

theorem search_short_query_noop:
  "js_length query < 2 \<Longrightarrow> handle_search now query s = s"
  by (simp add: handle_search_def)

text \<open>
  C7. \<open>handleSearch\<close> with a longer query renders exactly the posts whose lowered text or
  lowered author name contains the lowered query as a substring, in store order, and leaves
  the store unchanged: the filter refines the substring specification.
\<close>

theorem search_refines_filter:
  assumes "2 \<le> js_length query"
  shows "posts (handle_search now query s) = posts s \<and>
         feed (handle_search now query s) = render_posts (locale_date (env s)) now
           (filter (\<lambda>p. sublist (js_lower query) (js_lower (content p)) \<or>
                         sublist (js_lower query) (js_lower (name (user p)))) (posts s))"
  using assms by (simp add: handle_search_def render_with_def search_posts_spec)

text \<open>
  C11. After any action on an existing post the feed shows the whole post list again: a
  search filter in effect before the action is dropped.
\<close>

theorem post_action_renders_all:
  assumes "find_post pid (posts s) \<noteq> None"
  shows "feed (handle_post_action now a pid s) =
           render_posts (locale_date (env s)) now (posts (handle_post_action now a pid s))"
  using assms by (cases a) (auto simp: handle_post_action_def app_frame_defs share_post_def)


lemma posts_handle_shape:
  "posts (handle now e s) = posts s \<or>
   posts (handle now e s) = new_post now (current_user s) (js_trim (post_text s)) # posts s \<or>
   (\<exists>pid a. posts (handle now e s) = update_post pid (apply_action a) (posts s)) \<or>
   (\<exists>pid. posts (handle now e s) = update_post pid add_comment (posts s))"
proof (cases e)
  case (Post_action a pid)
  show ?thesis
  proof (cases "find_post pid (posts s)")
    case None
    then show ?thesis using Post_action by (simp add: handle_post_action_def app_frame_defs)
  next
    case (Some p)
    then show ?thesis using Post_action
      by (cases a) (auto simp: handle_post_action_def app_frame_defs share_post_def)
  qed
next
  case Publish
  then show ?thesis by (simp add: create_post_def app_frame_defs Let_def)
next
  case (Nav_click item)
  then show ?thesis by (simp add: set_active_nav_def render_all_def render_with_def Let_def)
next
  case (Search_input q)
  then show ?thesis by (simp add: handle_search_def render_with_def)
next
  case (Follow_click k)
  then show ?thesis by (simp add: handle_follow_def notify_def Let_def)
next
  case (Key_down ctrl meta key)
  then show ?thesis by (simp add: handle_keyboard_shortcuts_def)
next
  case (Timer_fire k)
  then show ?thesis by (simp add: timer_fired_def split: option.split)
next
  case Add_location
  then show ?thesis by (simp add: add_location_def notify_def)
next
  case (Modal_click t)
  then show ?thesis by (simp add: modal_click_def close_modal_def)
qed (simp_all add: toggle_theme_def image_loaded_def add_emoji_def location_granted_def
       open_modal_def close_modal_def notify_def chrome_pointer_def chrome_image_error_def Let_def)

lemma app_init_posts: "posts (app_init now e st pg) = sample_posts now"
  by (simp add: app_init_def update_user_profile_def setup_theme_def app_frame_defs Let_def)

lemma app_init_clock: "clock (app_init now e st pg) = now"
  by (simp add: app_init_def update_user_profile_def setup_theme_def app_frame_defs Let_def)

lemma posts_step: "posts (step t ev s) = posts (handle t ev (s\<lparr>clock := t\<rparr>))"
  by (simp add: step_def)

lemma handle_engagement_ok:
  assumes ok: "\<forall>p \<in> set (posts s). engagement_ok p"
  shows "\<forall>p \<in> set (posts (handle now e s)). engagement_ok p"
  using posts_handle_shape [of now e s]
proof (elim disjE exE)
  fix pid a
  assume "posts (handle now e s) = update_post pid (apply_action a) (posts s)"
  with ok show ?thesis by (metis update_post_keeps engagement_ok_apply_action)
next
  fix pid
  assume "posts (handle now e s) = update_post pid add_comment (posts s)"
  with ok show ?thesis by (metis update_post_keeps engagement_ok_add_comment)
next
  assume "posts (handle now e s) = new_post now (current_user s) (js_trim (post_text s)) # posts s"
  with ok show ?thesis by (simp add: engagement_ok_new_post)
next
  assume "posts (handle now e s) = posts s"
  with ok show ?thesis by simp
qed

text \<open>
  C9. In every state a page load can reach, every post has non-negative counters, and a
  liked (retweeted) post has at least one like (retweet).
\<close>

theorem reachable_engagement_ok:
  "reachable s \<Longrightarrow> \<forall>p \<in> set (posts s). engagement_ok p"
proof (induction rule: reachable.induct)
  case (init now e st pg)
  then show ?case by (simp add: app_init_posts engagement_ok_sample_posts)
next
  case (step s t ev)
  then have "\<forall>p \<in> set (posts (s\<lparr>clock := t\<rparr>)). engagement_ok p" by simp
  then show ?case unfolding step_def by (rule handle_engagement_ok)
qed

lemma clock_handle: "clock (handle now e s) = clock s"
  by (cases e) (simp_all add: handler_defs split: option.split action.split)

lemma handle_ids_fresh:
  assumes d: "distinct (map post_id (posts s))" and lt: "\<forall>p \<in> set (posts s). post_id p < now"
  shows "distinct (map post_id (posts (handle now e s))) \<and> (\<forall>p \<in> set (posts (handle now e s)). post_id p \<le> now)"
  using posts_handle_shape [of now e s]
proof (elim disjE exE)
  fix pid a
  assume eq: "posts (handle now e s) = update_post pid (apply_action a) (posts s)"
  have "map post_id (posts (handle now e s)) = map post_id (posts s)"
    unfolding eq by (rule update_post_ids) simp
  with d lt show ?thesis by (metis (mono_tags, lifting) image_iff less_imp_le list.set_map)
next
  fix pid
  assume eq: "posts (handle now e s) = update_post pid add_comment (posts s)"
  have "map post_id (posts (handle now e s)) = map post_id (posts s)"
    unfolding eq by (rule update_post_ids) simp
  with d lt show ?thesis by (metis (mono_tags, lifting) image_iff less_imp_le list.set_map)
next
  assume "posts (handle now e s) = new_post now (current_user s) (js_trim (post_text s)) # posts s"
  with d lt show ?thesis by (auto simp: new_post_def)
next
  assume "posts (handle now e s) = posts s"
  with d lt show ?thesis by auto
qed

text \<open>
  C10. When every event happens at a later millisecond than the one before (and after the
  sample ids), the post ids stay distinct.
\<close>

theorem strict_reachable_ids_distinct:
  "strict_reachable s \<Longrightarrow> distinct (map post_id (posts s))"
proof -
  assume "strict_reachable s"
  then have "distinct (map post_id (posts s)) \<and> (\<forall>p \<in> set (posts s). post_id p \<le> clock s)"
  proof (induction rule: strict_reachable.induct)
    case (init now e st pg)
    have "\<forall>p \<in> set (sample_posts now). post_id p \<le> 5" by (simp add: sample_posts_def sample_post_def)
    with init show ?case by (auto simp: app_init_posts app_init_clock sample_post_ids)
  next
    case (step s t ev)
    then have "\<forall>p \<in> set (posts (s\<lparr>clock := t\<rparr>)). post_id p < t" by fastforce
    moreover have "distinct (map post_id (posts (s\<lparr>clock := t\<rparr>)))" using step.IH by simp
    ultimately show ?case
      using handle_ids_fresh [of "s\<lparr>clock := t\<rparr>" t ev] by (simp add: step_def clock_handle)
  qed
  then show ?thesis ..
qed

text \<open>
  C19. Two posts published within the same millisecond get the same id: \<open>Date.now()\<close> as
  id does not make ids unique.
\<close>

theorem publish_same_millisecond_duplicates:
  assumes "js_trim a \<noteq> []" "js_trim b \<noteq> []"
  shows "\<not> distinct (map post_id (posts (handle now Publish (handle now (Type_post_text b)
                (handle now Publish (handle now (Type_post_text a) s))))))"
  using assms js_trim_nonempty [OF assms(1)] js_trim_nonempty [OF assms(2)]
  by (simp add: create_post_def app_frame_defs new_post_def Let_def)

lemma theme_fields_handle:
  "e \<noteq> Toggle_theme \<Longrightarrow>
   current_theme (handle now e s) = current_theme s \<and> data_theme (handle now e s) = data_theme s \<and>
   theme_icon (handle now e s) = theme_icon s \<and> storage (handle now e s) = storage s"
  by (cases e) (simp_all add: handler_defs split: option.split action.split)

lemma app_init_theme:
  "current_theme (app_init now e st pg) = stored_theme st \<and> storage (app_init now e st pg) = st \<and>
   data_theme (app_init now e st pg) = stored_theme st \<and>
   theme_icon (app_init now e st pg) = theme_icon_for (stored_theme st)"
  by (simp add: app_init_def update_user_profile_def setup_theme_def app_frame_defs Let_def)

text \<open>
  C20. Toggling the theme twice from \<open>light\<close> or \<open>dark\<close> returns to it, and
  \<open>localStorage\<close> then holds that theme.
\<close>

theorem toggle_theme_twice:
  "current_theme s \<in> {''light'', ''dark''} \<Longrightarrow>
   current_theme (toggle_theme (toggle_theme s)) = current_theme s \<and>
   storage (toggle_theme (toggle_theme s)) ''theme'' = Some (current_theme s)"
  by (auto simp: toggle_theme_def Let_def)

text \<open>
  C21. In every reachable state the page agrees with the theme: the \<open>data-theme\<close>
  attribute is the current theme and the toggle shows the sun icon exactly in dark mode.
\<close>

theorem reachable_theme_dom:
  "reachable s \<Longrightarrow> data_theme s = current_theme s \<and> theme_icon s = theme_icon_for (current_theme s)"
proof (induction rule: reachable.induct)
  case (init now e st pg)
  then show ?case by (simp add: app_init_theme)
next
  case (step s t ev)
  then show ?case
    by (cases "ev = Toggle_theme") (simp_all add: step_def toggle_theme_def Let_def theme_fields_handle)
qed

text \<open>
  C22. Reloading the page in any reachable state brings back the theme it shows: the theme
  the constructor reads from \<open>localStorage\<close> is the current one.
\<close>

theorem reachable_theme_reload:
  "reachable s \<Longrightarrow> current_theme (app_init now e (storage s) pg) = current_theme s"
proof -
  assume "reachable s"
  then have "stored_theme (storage s) = current_theme s"
  proof (induction rule: reachable.induct)
    case (init now e st pg)
    then show ?case by (simp add: app_init_theme)
  next
    case (step s t ev)
    then show ?case
      by (cases "ev = Toggle_theme") (simp_all add: step_def toggle_theme_def stored_theme_def Let_def theme_fields_handle)
  qed
  then show ?thesis by (simp add: app_init_theme)
qed

text \<open>
  The interface between the handlers and \<open>Notifications\<close>: a handler changes the toast
  state only by \<open>showNotification\<close> or by firing a pending timer, so every property of
  toast states that these two operations keep holds after any event.
\<close>

lemma handle_toasts_preserved:
  assumes "P (toast_state s)"
    and shw: "\<And>ns msg ty. P ns \<Longrightarrow> P (show_notification now msg ty ns)"
    and fir: "\<And>ns ns' k. P ns \<Longrightarrow> fire_timer now k ns = Some ns' \<Longrightarrow> P ns'"
  shows "P (toast_state (handle now e s))"
  using assms(1) by (cases e) (auto simp: handler_defs intro: shw fir split: option.split action.split)

lemma app_init_toasts: "toast_state (app_init now e st pg) = no_toasts"
  by (simp add: app_init_def update_user_profile_def setup_theme_def app_frame_defs Let_def)

text \<open>
  C23. In every reachable state the toasts are well formed: distinct ids, and each toast on
  screen has exactly one pending timer, the slide-out timer until its animation starts and
  the removal timer after.
\<close>

theorem reachable_toasts_ok: "reachable s \<Longrightarrow> Notifications.toasts_ok (toast_state s)"
proof (induction rule: reachable.induct)
  case (init now e st pg)
  then show ?case by (simp add: app_init_toasts toasts_ok_no_toasts)
next
  case (step s t ev)
  then show ?case unfolding step_def
    by (intro handle_toasts_preserved [where P = toasts_ok]) (auto intro: toasts_ok_show_notification toasts_ok_fire_timer)
qed

text \<open>
  C34. Clicking a follow button twice restores its label and shows two notifications, first
  the one for the label it had, then the other.
\<close>

theorem follow_twice_restores:
  assumes "k < length (follow_labels s)" "follow_labels s ! k = ''Follow'' \<or> follow_labels s ! k = ''Following''"
  shows "follow_labels (handle_follow now k (handle_follow now k s)) = follow_labels s \<and>
         map message (shown (toast_state (handle_follow now k (handle_follow now k s)))) =
           map message (shown (toast_state s)) @
           (if follow_labels s ! k = ''Following'' then [''Unfollowed user'', ''Now following user'']
            else [''Now following user'', ''Unfollowed user''])"
  using assms by (auto simp: handle_follow_def notify_def show_notification_def Let_def list_update_same_conv)

text \<open>
  C35. For every value of \<open>Math.random()\<close> in \<open>[0, 1)\<close> the emoji index is within the
  list of ten emojis, so the composer text is extended by one of them.
\<close>

theorem add_emoji_in_range:
  assumes "0 \<le> r" "r < 1"
  shows "0 \<le> emoji_index r \<and> emoji_index r < 10 \<and> (\<exists>e \<in> set emojis. post_text (add_emoji r s) = post_text s @ e)"
proof -
  have len: "length emojis = 10" by (simp add: emojis_def)
  have lo: "0 \<le> emoji_index r" using assms(1) by (simp add: emoji_index_def len)
  have hi: "emoji_index r < 10" using assms(2) by (simp add: emoji_index_def len floor_less_iff)
  have "emojis ! nat (emoji_index r) \<in> set emojis" using lo hi len by simp
  then show ?thesis using lo hi by (auto simp: add_emoji_def)
qed

lemma sample_posts_not_Nil [simp]: "sample_posts now \<noteq> []"
  by (simp add: sample_posts_def)

lemma app_init_chrome_tilt: "chrome_tilt (app_init now e st pg) = enable_tilt (enable_tilt tilt_none)"
  by (simp add: app_init_def update_user_profile_def setup_theme_def app_frame_defs Let_def)

text \<open>
  The interface between the handlers and \<open>Tilt\<close>: a handler changes the tilt element
  outside the feed only by events of \<open>Tilt\<close> (a new binding is the event
  \<open>Enable_tilt\<close>), so every property that \<open>tilt_step\<close> keeps holds after any event.
\<close>

lemma handle_chrome_preserved:
  assumes "P (chrome_tilt s)" and st: "\<And>el te. P el \<Longrightarrow> P (tilt_step te el)"
  shows "P (chrome_tilt (handle now e s))"
proof -
  have en: "P el \<Longrightarrow> P (enable_tilt el)" for el using st [of el Enable_tilt] by simp
  show ?thesis
    using assms(1) by (cases e) (auto simp: handler_defs intro: st en split: option.split action.split)
qed

text \<open>
  C36. The tilt element outside the feed is well formed in every reachable state (one
  animation-frame callback per active binding), and it carries at least two bindings: start-up
  alone runs \<open>enableTiltEffects\<close> twice on it, once from \<open>renderPosts\<close> and once from
  \<open>init\<close>.
\<close>

theorem reachable_chrome_tilt:
  "reachable s \<Longrightarrow> Tilt.tilt_ok (chrome_tilt s) \<and> 2 \<le> length (bindings (chrome_tilt s))"
proof (induction rule: reachable.induct)
  case (init now e st pg)
  then show ?case
    by (simp add: app_init_chrome_tilt tilt_ok_enable_tilt tilt_ok_none) (simp add: enable_tilt_def tilt_none_def)
next
  case (step s t ev)
  then show ?case unfolding step_def
    by (intro handle_chrome_preserved [where P = "\<lambda>el. tilt_ok el \<and> 2 \<le> length (bindings el)"])
       (auto intro: tilt_ok_step le_trans [OF _ length_tilt_step])
qed

lemma handle_scene_preserved:
  assumes "P (scene_3d s)" and "\<And>sc. P sc \<Longrightarrow> P (setup_3d_environment sc)"
  shows "P (scene_3d (handle now e s))"
  using assms by (cases e) (auto simp: handler_defs split: option.split action.split)

text \<open>
  The 3D styles are in place in every reachable state: start-up runs
  \<open>setup3DEnvironment\<close>, every navigation runs it again without effect, and no other
  handler writes them. In particular the modal content keeps \<open>scale(0.98)\<close> while the
  modal opens and closes (lemma \<open>setup_modal_fixed\<close>).
\<close>

lemma reachable_scene_set_up: "reachable s \<Longrightarrow> setup_3d_environment (scene_3d s) = scene_3d s"
proof (induction rule: reachable.induct)
  case (init now e st pg)
  then show ?case by (simp add: app_init_def setup_3d_environment_idem app_frame_defs setup_theme_def
                                update_user_profile_def Let_def)
next
  case (step s t ev)
  then show ?case unfolding step_def
    by (intro handle_scene_preserved [where P = "\<lambda>sc. setup_3d_environment sc = sc"])
       (simp_all add: setup_3d_environment_idem)
qed

lemma feed_rendered_all:
  "feed s' = render_posts ld now (posts s') \<Longrightarrow>
   feed s' = f \<or> (\<exists>ld ps. set ps \<subseteq> set (posts s') \<and> feed s' = render_posts ld now ps)"
  by (intro disjI2 exI [of _ ld] exI [of _ "posts s'"]) simp

lemma handle_feed_shape:
  "feed (handle now e s) = feed s \<or>
   (\<exists>ld ps. set ps \<subseteq> set (posts (handle now e s)) \<and> feed (handle now e s) = render_posts ld now ps)"
proof (cases e)
  case (Search_input q)
  show ?thesis
  proof (cases "js_length q < 2")
    case True
    then show ?thesis using Search_input by (simp add: handle_search_def)
  next
    case False
    then have "feed (handle now e s) = render_posts (locale_date (env s)) now (filter (matches_query q) (posts s))"
      and "posts (handle now e s) = posts s"
      using Search_input by (simp_all add: handle_search_def render_with_def search_posts_def)
    then show ?thesis
      by (intro disjI2 exI [of _ "locale_date (env s)"] exI [of _ "filter (matches_query q) (posts s)"]) simp
  qed
next
  case (Nav_click item)
  then show ?thesis by (auto simp: set_active_nav_def app_frame_defs Let_def)
next
  case Publish
  show ?thesis
  proof (cases "js_trim (post_text s) = []")
    case True
    then show ?thesis using Publish by (simp add: create_post_def)
  next
    case False
    then show ?thesis using Publish
      by (intro feed_rendered_all [where ld = "locale_date (env s)"]) (simp add: create_post_def app_frame_defs Let_def)
  qed
next
  case (Post_action a pid)
  then show ?thesis
    by (auto simp: handle_post_action_def app_frame_defs share_post_def Let_def split: option.split action.split)
qed (auto simp: handler_defs split: option.split)

text \<open>
  C37. In every reachable state the rendered feed is well typed: every card's like and
  retweet classes take one of their two values and its three counters are decimal numerals,
  never negative.
\<close>

theorem reachable_feed_typed: "reachable s \<Longrightarrow> Feed.feed_typed (feed s)"
proof -
  assume r: "reachable s"
  have "(\<forall>p \<in> set (posts s). engagement_ok p) \<and> feed_typed (feed s)"
    using r
  proof (induction rule: reachable.induct)
    case (init now e st pg)
    have "feed (app_init now e st pg) = render_posts (locale_date e) now (sample_posts now)"
      by (simp add: app_init_def update_user_profile_def setup_theme_def app_frame_defs Let_def)
    then show ?case by (simp add: app_init_posts engagement_ok_sample_posts render_posts_typed)
  next
    case (step s t ev)
    let ?s = "s\<lparr>clock := t\<rparr>"
    have ok: "\<forall>p \<in> set (posts ?s). engagement_ok p" and ty: "feed_typed (feed ?s)" using step.IH by simp_all
    have ok': "\<forall>p \<in> set (posts (handle t ev ?s)). engagement_ok p" by (rule handle_engagement_ok [OF ok])
    have "feed_typed (feed (handle t ev ?s))"
      using handle_feed_shape [of t ev ?s]
    proof
      assume "feed (handle t ev ?s) = feed ?s"
      then show ?thesis using ty by simp
    next
      assume "\<exists>ld ps. set ps \<subseteq> set (posts (handle t ev ?s)) \<and> feed (handle t ev ?s) = render_posts ld t ps"
      then obtain ld ps where "set ps \<subseteq> set (posts (handle t ev ?s))" "feed (handle t ev ?s) = render_posts ld t ps"
        by blast
      then show ?thesis using ok' render_posts_typed [of ps ld t] by auto
    qed
    then show ?case using ok' unfolding step_def by simp
  qed
  then show ?thesis by simp
qed

lemma find_post_None_iff: "find_post i ps = None \<longleftrightarrow> i \<notin> set (map post_id ps)"
  by (auto simp: find_post_def find_None_iff)

lemma update_post_distinct:
  "distinct (map post_id ps) \<Longrightarrow> update_post i f ps = map (\<lambda>p. if post_id p = i then f p else p) ps"
  unfolding update_post_def by (rule update_first_distinct)

lemma apply_action_spec_flip:
  "apply_action Like = spec_flip Like_kind" "apply_action Retweet = spec_flip Reshare_kind"
  by (rule ext, simp add: toggle_like_def toggle_retweet_def Let_def)+

text \<open>
  C8. The handlers implement the specification's Post Store: when post ids are distinct
  and, for a publish, \<open>Date.now()\<close> is not already an id, every event that performs a store
  operation has an outcome the contract permits and leaves exactly that store, a failing
  operation (blank text, unknown id) leaves the whole application state unchanged, and
  every other event leaves the store as it is.
\<close>

theorem handlers_refine_store:
  assumes dist: "distinct (map post_id (posts s))"
    and fresh: "ev = Publish \<Longrightarrow> now \<notin> set (map post_id (posts s))"
  shows "case store_op_of now ev s of
           None \<Rightarrow> posts (handle now ev s) = posts s
         | Some op \<Rightarrow> (\<exists>r. spec_step op (posts s) r \<and>
                        (case r of
                           Inl _ \<Rightarrow> handle now ev s = s
                         | Inr ps' \<Rightarrow> posts (handle now ev s) = ps'))"
proof (cases ev)
  case Publish
  show ?thesis
  proof (cases "js_trim (post_text s) = []")
    case True
    then show ?thesis unfolding Publish by (simp add: spec_create_def create_post_def js_trim_idem)
  next
    case False
    let ?u = "\<lparr>name = name (current_user s), username = username (current_user s), avatar = avatar (current_user s)\<rparr>"
    let ?p = "new_post now (current_user s) (js_trim (post_text s))"
    have sc: "spec_create ?u (js_trim (post_text s)) None now (posts s) (Inr (?p # posts s))"
      using False fresh Publish by (simp add: spec_create_def js_trim_idem created_post_def new_post_def)
    have pc: "posts (create_post now s) = ?p # posts s"
      using False by (simp add: create_post_def app_frame_defs Let_def)
    have "\<exists>r. spec_create ?u (js_trim (post_text s)) None now (posts s) r \<and>
            (case r of Inl _ \<Rightarrow> create_post now s = s | Inr ps' \<Rightarrow> posts (create_post now s) = ps')"
      using sc pc by (intro exI [of _ "Inr (?p # posts s)"]) simp
    then show ?thesis unfolding Publish by (simp only: handle.simps store_op_of.simps option.case spec_step.simps)
  qed
next
  case (Post_action a i)
  show ?thesis
  proof (cases "i \<in> set (map post_id (posts s))")
    case False
    then have "find_post i (posts s) = None" by (simp add: find_post_None_iff)
    then show ?thesis using Post_action False
      by (cases a) (simp_all add: spec_toggle_def spec_comment_def handle_post_action_def)
  next
    case True
    then obtain p where "find_post i (posts s) = Some p" by (cases "find_post i (posts s)") (simp_all add: find_post_None_iff)
    then show ?thesis using Post_action True dist
      by (cases a) (simp_all add: spec_toggle_def spec_comment_def handle_post_action_def app_frame_defs
                                  share_post_def update_post_distinct add_comment_def
                                  flip: apply_action_spec_flip cong: if_cong)
  qed
qed (simp_all add: handler_defs split: option.split)

section \<open>Witnesses\<close>

lemma create_post_publishes_witness:
  "js_trim ''hi'' \<noteq> [] \<and>
   posts (create_post 2000 (demo_app\<lparr>post_text := ''hi''\<rparr>)) = new_post 2000 initial_user ''hi'' # posts demo_app"
proof -
  have t: "js_trim ''hi'' = ''hi''" by (simp add: js_trim_def js_eval)
  have u: "current_user demo_app = initial_user"
    by (simp add: demo_app_def app_init_def update_user_profile_def setup_theme_def app_frame_defs Let_def)
  show ?thesis using create_post_publishes [of "demo_app\<lparr>post_text := ''hi''\<rparr>" 2000] t u by simp
qed


lemma toggle_like_twice_restores_witness:
  "find_post 1 (posts demo_app) \<noteq> None \<and>
   posts (handle_post_action 3000 Like 1 (handle_post_action 2000 Like 1 demo_app)) = posts demo_app"
proof -
  have "find_post 1 (posts demo_app) \<noteq> None"
    by (simp add: demo_app_def app_init_posts find_post_def sample_posts_def sample_post_def)
  then show ?thesis using toggle_like_twice_restores [of 1 demo_app 3000 2000] by simp
qed

lemma post_action_unknown_noop_witness:
  "find_post 42 (posts demo_app) = None \<and> handle_post_action 2000 Like 42 demo_app = demo_app"
proof -
  have "find_post 42 (posts demo_app) = None"
    by (simp add: demo_app_def app_init_posts find_post_def sample_posts_def sample_post_def)
  then show ?thesis using post_action_unknown_noop [of 42 demo_app 2000 Like] by simp
qed

lemma search_short_query_noop_witness:
  "js_length ''a'' < 2 \<and> handle_search 2000 ''a'' demo_app = demo_app"
  using search_short_query_noop [of "''a''" 2000 demo_app] by (simp add: js_eval)

lemma search_refines_filter_witness:
  "2 \<le> js_length ''goa'' \<and> posts (handle_search 2000 ''goa'' demo_app) = posts demo_app"
  using search_refines_filter [of "''goa''" 2000 demo_app] by (simp add: js_eval)

lemma post_action_renders_all_witness:
  "find_post 1 (posts demo_app) \<noteq> None \<and>
   feed (handle_post_action 2000 Comment 1 demo_app) =
     render_posts (locale_date demo_env) 2000 (posts (handle_post_action 2000 Comment 1 demo_app))"
proof -
  have f: "find_post 1 (posts demo_app) \<noteq> None"
    by (simp add: demo_app_def app_init_posts find_post_def sample_posts_def sample_post_def)
  have e: "env demo_app = demo_env"
    by (simp add: demo_app_def app_init_def update_user_profile_def setup_theme_def app_frame_defs Let_def)
  show ?thesis using post_action_renders_all [of 1 demo_app 2000 Comment] f e by simp
qed

lemma reachable_engagement_ok_witness:
  "reachable demo_app \<and> list_all engagement_ok (posts demo_app)"
proof -
  have r: "reachable demo_app" unfolding demo_app_def by (rule reachable.init)
  then show ?thesis using reachable_engagement_ok [OF r] by (simp add: list_all_iff)
qed

lemma strict_reachable_ids_distinct_witness:
  "strict_reachable demo_app \<and> distinct (map post_id (posts demo_app))"
proof -
  have r: "strict_reachable demo_app" unfolding demo_app_def by (rule strict_reachable.init) simp
  then show ?thesis using strict_reachable_ids_distinct [OF r] by simp
qed

lemma publish_same_millisecond_duplicates_witness:
  "js_trim ''a'' \<noteq> [] \<and> js_trim ''b'' \<noteq> [] \<and>
   \<not> distinct (map post_id (posts (handle 2000 Publish (handle 2000 (Type_post_text ''b'')
        (handle 2000 Publish (handle 2000 (Type_post_text ''a'') demo_app))))))"
proof -
  have "js_trim ''a'' = ''a''" "js_trim ''b'' = ''b''" by (simp_all add: js_trim_def js_eval)
  then show ?thesis using publish_same_millisecond_duplicates [of "''a''" "''b''" 2000 demo_app] by simp
qed

lemma toggle_theme_twice_witness:
  "current_theme (toggle_theme (toggle_theme (demo_app\<lparr>current_theme := ''dark''\<rparr>))) = ''dark''"
  using toggle_theme_twice [of "demo_app\<lparr>current_theme := ''dark''\<rparr>"] by simp

lemma reachable_theme_dom_witness:
  "reachable demo_app \<and> data_theme demo_app = current_theme demo_app"
proof -
  have r: "reachable demo_app" unfolding demo_app_def by (rule reachable.init)
  then show ?thesis using reachable_theme_dom [OF r] by simp
qed

lemma reachable_theme_reload_witness:
  "reachable demo_app \<and> current_theme (app_init 5000 demo_env (storage demo_app) demo_page) = current_theme demo_app"
proof -
  have r: "reachable demo_app" unfolding demo_app_def by (rule reachable.init)
  then show ?thesis using reachable_theme_reload [OF r, of 5000 demo_env demo_page] by simp
qed

lemma reachable_toasts_ok_witness:
  "toasts_ok (toast_state (step 3000 Publish (step 2000 (Type_post_text ''Hello'') demo_app)))"
proof -
  have r0: "reachable demo_app" unfolding demo_app_def by (rule reachable.init)
  have r1: "reachable (step 2000 (Type_post_text ''Hello'') demo_app)"
    by (rule reachable.step [OF r0]) (simp add: demo_app_def app_init_clock)
  have r2: "reachable (step 3000 Publish (step 2000 (Type_post_text ''Hello'') demo_app))"
    by (rule reachable.step [OF r1]) (simp add: step_def clock_handle)
  show ?thesis using reachable_toasts_ok [OF r2] by simp
qed

lemma follow_twice_restores_witness:
  "follow_labels (handle_follow 2000 0 (handle_follow 2000 0 demo_app)) = follow_labels demo_app"
proof -
  have "0 < length (follow_labels demo_app)" "follow_labels demo_app ! 0 = ''Follow'' \<or> follow_labels demo_app ! 0 = ''Following''"
    by (simp_all add: demo_app_def demo_page_def app_init_def update_user_profile_def setup_theme_def app_frame_defs Let_def)
  then show ?thesis using follow_twice_restores [of 0 demo_app 2000] by simp
qed

lemma add_emoji_in_range_witness:
  "0 \<le> emoji_index (1/2) \<and> emoji_index (1/2) < 10"
  using add_emoji_in_range [of "1/2" demo_app] by simp

lemma reachable_chrome_tilt_witness:
  "tilt_ok (chrome_tilt (step 2000 (Nav_click ''explore'') demo_app)) \<and>
   2 \<le> length (bindings (chrome_tilt (step 2000 (Nav_click ''explore'') demo_app)))"
proof -
  have r0: "reachable demo_app" unfolding demo_app_def by (rule reachable.init)
  have r1: "reachable (step 2000 (Nav_click ''explore'') demo_app)"
    by (rule reachable.step [OF r0]) (simp add: demo_app_def app_init_clock)
  show ?thesis by (rule reachable_chrome_tilt [OF r1])
qed

lemma reachable_feed_typed_witness: "feed_typed (feed (step 3000 (Post_action Like 1) demo_app))"
proof -
  have r0: "reachable demo_app" unfolding demo_app_def by (rule reachable.init)
  have r1: "reachable (step 3000 (Post_action Like 1) demo_app)"
    by (rule reachable.step [OF r0]) (simp add: demo_app_def app_init_clock)
  show ?thesis by (rule reachable_feed_typed [OF r1])
qed

lemma handlers_refine_store_witness:
  "distinct (map post_id (posts demo_app)) \<and> (2000::int) \<notin> set (map post_id (posts demo_app)) \<and>
   spec_step (Create \<lparr>name = name initial_user, username = username initial_user, avatar = avatar initial_user\<rparr>
                ''hi'' None 2000)
     (posts demo_app) (Inr (posts (handle 2000 Publish (demo_app\<lparr>post_text := ''hi''\<rparr>))))"
proof -
  let ?s = "demo_app\<lparr>post_text := ''hi''\<rparr>"
  let ?u = "\<lparr>name = name initial_user, username = username initial_user, avatar = avatar initial_user\<rparr>"
  have ids: "map post_id (posts demo_app) = [1, 2, 3, 4, 5]"
    by (simp add: demo_app_def app_init_posts sample_post_ids)
  have t: "js_trim ''hi'' = ''hi''" by (simp add: js_trim_def js_eval)
  have u: "current_user demo_app = initial_user"
    by (simp add: demo_app_def app_init_def update_user_profile_def setup_theme_def app_frame_defs Let_def)
  from handlers_refine_store [of ?s Publish 2000] ids t u
  obtain r where r: "spec_create ?u ''hi'' None 2000 (posts demo_app) r"
    and h: "case r of Inl _ \<Rightarrow> handle 2000 Publish ?s = ?s | Inr ps' \<Rightarrow> posts (handle 2000 Publish ?s) = ps'"
    by auto
  from r t obtain ps' where "r = Inr ps'" by (cases r) (simp_all add: spec_create_def)
  with r h ids show ?thesis by simp
qed

lemma create_post_unicode_blank_noop_witness:
  "[CHR 0xC2, CHR 0xA0] \<in> set js_space_seqs \<and> [CHR 0x20] \<in> set js_space_seqs \<and>
   [CHR 0xE3, CHR 0x80, CHR 0x80] \<in> set js_space_seqs \<and>
   create_post 2000 (demo_app\<lparr>post_text := [CHR 0xC2, CHR 0xA0, CHR 0x20, CHR 0xE3, CHR 0x80, CHR 0x80]\<rparr>) =
     demo_app\<lparr>post_text := [CHR 0xC2, CHR 0xA0, CHR 0x20, CHR 0xE3, CHR 0x80, CHR 0x80]\<rparr>"
  using create_post_unicode_blank_noop [of "[[CHR 0xC2, CHR 0xA0], [CHR 0x20], [CHR 0xE3, CHR 0x80, CHR 0x80]]"
          "demo_app\<lparr>post_text := [CHR 0xC2, CHR 0xA0, CHR 0x20, CHR 0xE3, CHR 0x80, CHR 0x80]\<rparr>" 2000]
  by (simp add: js_space_seqs_def)

end
