(* ===== verification/Spec2Isabelle.thy ===== *)
theory Spec2Isabelle
  imports App Tilt Image_Fallbacks Store_Spec
begin

text \<open>
  A model of LinkUp (\<open>src/script.js\<close>), a single-page social feed: one class
  \<open>LinkUpApp\<close> keeps the posts, the current user and the theme, renders the feed into the
  DOM, shows transient notifications, and reacts to browser events; two helpers attach
  image fallbacks and a 3D tilt animation to DOM elements after every rendering. The model
  is a shallow embedding in plain HOL: objects are records, enumerations datatypes, every
  method one definition composed as the source composes them, and the browser (event loop,
  timers, animation frames) an explicit step function or inductive relation.

  \<^bold>\<open>Theories.\<close>
  \<^item> \<open>Prelude\<close>: the JavaScript string operations the code calls (\<open>length\<close> in UTF-16
    units, \<open>toLowerCase\<close> on ASCII, \<open>trim\<close> with the ECMAScript white space as UTF-8
    sequences, \<open>includes\<close>, integer \<open>toString\<close>) on byte strings,
    \<open>find\<close> with the mutation of the found object (\<open>update_first\<close>), removal from a
    list by index, and the rule collection \<open>js_eval\<close> that evaluates the model on
    literal inputs by \<open>simp\<close>.
  \<^item> \<open>Formatters\<close>: \<open>formatTime\<close> (\<open>format_time\<close>), \<open>formatNumber\<close>
    (\<open>format_number\<close>, with the binary64 division \<open>double_div\<close> rounded to nearest-even
    and \<open>toFixed(1)\<close> as \<open>to_fixed1\<close>, both exact) and \<open>formatPostContent\<close>
    (\<open>format_post_content\<close>, the two global replacements as \<open>replace_tag\<close>).
  \<^item> \<open>Posts\<close>: the user and post objects, \<open>loadSampleData\<close> byte for byte, the
    operations on one post (like, retweet, comment) and on the list (find, update,
    search filter), and the engagement invariant \<open>engagement_ok\<close>.
  \<^item> \<open>Feed\<close>: \<open>createPostElement\<close> (a card is the tuple of values its template
    interpolates) and \<open>renderPosts\<close>.
  \<^item> \<open>Notifications\<close>: \<open>showNotification\<close> with its two \<open>setTimeout\<close> callbacks as
    explicit pending timers; \<open>fire_timer\<close> runs any timer that is due.
  \<^item> \<open>App\<close>: the state of \<open>LinkUpApp\<close> with the DOM it writes (\<open>app\<close>), one
    definition per handler (\<open>toggleTheme\<close>, \<open>setActiveNav\<close>, \<open>createPost\<close>,
    \<open>addImageToPost\<close>, \<open>addEmojiToPost\<close>, \<open>addLocationToPost\<close>,
    \<open>handlePostAction\<close>, \<open>sharePost\<close>, \<open>handleSearch\<close>, \<open>handleFollow\<close>, the modal,
    \<open>handleKeyboardShortcuts\<close>, \<open>updateUserProfile\<close>), the constructor
    \<open>app_init\<close>, the event type with \<open>handle\<close>/\<open>step\<close>, and the reachable states of
    one page load (\<open>reachable\<close>; \<open>strict_reachable\<close> when events are at least 1 ms apart).
    App composes the other components: it holds a \<open>Notifications\<close> state (changed only
    through \<open>show_notification\<close> and \<open>fire_timer\<close>, lemma \<open>handle_toasts_preserved\<close>),
    a \<open>Tilt\<close> element and the \<open>Image_Fallbacks\<close> images outside the feed: every
    rendering of a non-empty list (\<open>render_with\<close>), every navigation and start-up call
    \<open>setupImageFallbacks\<close>/\<open>enableTiltEffects\<close> on them, and pointer, frame and
    image-error events reach them as \<open>Chrome_event\<close> and \<open>Chrome_image_error\<close>
    (lemma \<open>handle_chrome_preserved\<close>).
  \<^item> \<open>Tilt\<close>: \<open>enableTiltEffects\<close> on one element: one binding (closure state) per call,
    the queue of requested animation frames, \<open>applyTilt\<close>, \<open>resetTilt\<close>,
    \<open>animate\<close>; \<open>settle\<close> is the frame loop once the pointer rests, a
    \<open>partial_function (option)\<close> proved total.
  \<^item> \<open>Image_Fallbacks\<close>: \<open>setupImageFallbacks\<close> on one image: its flag, its listeners,
    and an \<open>error\<close> event running them.
  \<^item> \<open>Scene3D\<close>: \<open>setup3DEnvironment\<close>: the inline styles it writes on
    \<open>.main-content\<close>, on the elements of its selector list outside the feed and on
    \<open>.modal-content\<close>, with the early return when \<open>.main-content\<close> is missing. App runs
    it at start-up and after every navigation (\<open>app_init\<close>, \<open>set_active_nav\<close>).
  \<^item> \<open>Store_Spec\<close>: the Post Store contract of the specification, not code: \<open>create\<close>,
    \<open>toggleEngagement\<close> and \<open>incrementComment\<close> with \<open>ValidationError\<close> and
    \<open>NotFoundError\<close> as values of \<open>store_error + post list\<close>. Because \<open>create\<close> may
    allocate any fresh id, the contract is the predicate \<open>spec_step\<close> on permitted
    outcomes. \<open>App.store_op_of\<close> names the store operation an event performs, and
    \<open>handlers_refine_store\<close> proves that the handlers implement it.

  \<^bold>\<open>What is proved.\<close> Post creation publishes, renders and notifies; text made
  only of ECMAScript white space (ASCII or Unicode), unknown ids and short queries are silent
  no-ops; liking twice restores a post; search is the filter the spec describes. The
  handlers refine the specification's Post Store (\<open>handlers_refine_store\<close>): with
  distinct ids, and a \<open>Date.now()\<close> that is not already an id when publishing, every
  publish, like, retweet and comment has an outcome the contract permits and leaves exactly
  that store, a failing operation leaves the whole state unchanged, and no other event
  touches the store; without the fresh time two publishes collide. Every reachable state
  keeps the engagement invariant, shows the theme it stores, keeps distinct post ids when
  events are 1 ms apart and the toasts well formed (one pending timer per toast, so none is
  removed twice); toasts drain once their timers are due. \<open>formatTime\<close> buckets ages
  with inclusive lower edges; \<open>formatNumber\<close> is exact on whole hundreds (K) and hundred
  thousands (M) despite binary64 and \<open>toFixed\<close>, and renders every count from 999950 to
  999999 as \<open>1000.0K\<close>; \<open>formatPostContent\<close> wraps hashtags and mentions in colour
  spans (not links) and leaves markup untouched. For the tilt: one pending frame per
  binding, angles within 5 degrees, the frame loop ends at rest, the inertia update has its
  closed form, and re-binding accumulates animation loops. For the images: at most one
  replacement, and placeholder sizes 100 or 150 only. A follow button clicked twice is
  restored, and the random emoji index stays in range. Across components: the tilt element
  outside the feed stays well formed in every reachable state and carries at least two
  bindings from start-up on, the rendered feed is well typed (class attributes from their
  two values, counters decimal numerals) in every reachable state, and the 3D styles are a
  fixed point of \<open>setup3DEnvironment\<close> in every reachable state
  (\<open>reachable_scene_set_up\<close>).

  \<^bold>\<open>Bounds and fuel.\<close> \<open>settle\<close> has no fuel: its totality is proved from a frame budget
  per binding (0.88 to the power of the budget times the initial gap is below 0.01, which
  \<open>real_arch_pow_inv\<close> provides). \<open>fire_due\<close> runs at most \<open>f\<close> due timers; the drain
  theorem uses the number of pending timers, which is enough because each firing removes
  one timer and adds at most one that is due 300 ms later.

  \<^bold>\<open>Not modelled.\<close> The notification stylesheet (the \<open>style\<close> element appended
  at load time) is a constant CSS text that no code reads. Inline styles other than those of
  \<open>setup3DEnvironment\<close>, the tilt and the follow buttons, icon markup and the card HTML
  beyond the interpolated values are presentation. The string helpers of \<open>Prelude\<close>
  work on UTF-8 byte strings; \<open>trim\<close> strips every ECMAScript white space and line
  terminator, but \<open>toLowerCase\<close> lowers ASCII letters only: the full Unicode case
  mapping (about 1400 pairs, some changing the length) is not transcribed. The script's own
  literals are ASCII apart from emoji, which \<open>toLowerCase\<close> does not change, so the
  difference concerns searches over user input with non-ASCII letters only. The tilt angles
  are reals, not binary64, and the transform string is not formatted. Of the DOM elements App holds one tilt element, the images and the 3D styles
  outside the feed; the cards inside the feed are values, so their own tilt bindings,
  image listeners and 3D styles (recreated by every rendering) are not tracked.
  \<open>toLocaleDateString\<close>, \<open>Date.now()\<close>, \<open>Math.random()\<close> and the share,
  clipboard, file and geolocation APIs are parameters or recorded effects;
  \<open>window.scrollTo\<close> is the recorded effect \<open>Scroll_to_top\<close>.
\<close>

end
